theory Spec2Isabelle
  imports
    Main
    "HOL-Library.Char_ord"
    "HOL-Library.List_Lexorder"
    "HOL-Library.Product_Lexorder"
begin

section \<open>The MySQL datastore stub (datastore_mysql_stub.py)\<close>

text \<open>
  A shallow embedding of \<^verbatim>\<open>src/datastore_mysql_stub.py\<close>. Python byte strings are
  \<open>string\<close>s; with \<open>Char_ord\<close> and \<open>List_Lexorder\<close> the order \<open><\<close> on them is the
  byte-lexicographic order Python 2 uses for \<open>str\<close>, and with \<open>Product_Lexorder\<close> tuples
  compare as Python tuples do. Python integers are \<open>int\<close>. Protocol buffers are records;
  an optional field is an \<open>option\<close>, read through an accessor that yields the default
  of the field when it is not set, as the generated accessors do. An exception is a
  value of type \<open>error\<close>; a method that mutates the stub returns the new stub together
  with its result, also when it raises.
\<close>

subsection \<open>Exceptions\<close>

datatype error_code = BAD_REQUEST | NEED_INDEX

datatype error =
    BadRequestError string            \<comment> \<open>\<^verbatim>\<open>datastore_errors.BadRequestError\<close>\<close>
  | ApplicationError error_code string \<comment> \<open>\<^verbatim>\<open>apiproxy_errors.ApplicationError\<close>\<close>
  | AssertionError
  | NameError string
  | IndexError
  | ValueError
  | AttributeError
  | UnboundLocalError                 \<comment> \<open>a local variable read before its first assignment\<close>
  | ProgrammingError                  \<comment> \<open>raised by the database driver for a statement it rejects\<close>

subsection \<open>Protocol buffers\<close>

record Path_Element =
  elem_type :: string
  elem_id :: "int option"
  elem_name :: "string option"

definition has_id :: "Path_Element \<Rightarrow> bool" where
  "has_id e = (elem_id e \<noteq> None)"

definition has_name :: "Path_Element \<Rightarrow> bool" where
  "has_name e = (elem_name e \<noteq> None)"

definition id_of :: "Path_Element \<Rightarrow> int" where
  "id_of e = (case elem_id e of None \<Rightarrow> 0 | Some i \<Rightarrow> i)"

definition name_of :: "Path_Element \<Rightarrow> string" where
  "name_of e = (case elem_name e of None \<Rightarrow> [] | Some s \<Rightarrow> s)"

type_synonym Path = "Path_Element list"

record Reference =
  app :: string
  name_space :: string
  path :: Path

record UserValue =
  email :: string
  auth_domain :: string
  nickname :: "string option"
  gaiaid :: int
  obfuscated_gaiaid :: "string option"

record ReferenceValue =
  ref_app :: string
  ref_name_space :: "string option"
  pathelement_list :: Path

text \<open>
  A property value has at most one of its fields set. A double is kept as its 64-bit
  pattern and a point as two of them; nothing below computes with them.
\<close>

record PropertyValue =
  int64value :: "int option"
  booleanvalue :: "bool option"
  stringvalue :: "string option"
  doublevalue :: "nat option"
  pointvalue :: "(nat \<times> nat) option"
  uservalue :: "UserValue option"
  referencevalue :: "ReferenceValue option"

record Property =
  prop_name :: string
  prop_value :: PropertyValue
  multiple :: bool

record EntityProto =
  key :: Reference
  entity_group :: "Path option"
  property_list :: "Property list"
  raw_property_list :: "Property list"

record Transaction =
  tx_app :: string
  handle :: int

datatype State = WRITE_ONLY | READ_WRITE | DELETED | ERROR

datatype Direction = ASCENDING | DESCENDING

record Index =
  entity_type :: string
  ancestor_flag :: bool
  index_properties :: "(string \<times> Direction) list"

record CompositeIndex =
  index_app_id :: string
  index_id :: int
  index_definition :: Index
  index_state :: State

datatype Operator =
  LESS_THAN | LESS_THAN_OR_EQUAL | GREATER_THAN | GREATER_THAN_OR_EQUAL | EQUAL | IN | EXISTS

record Filter =
  filter_op :: Operator
  filter_property :: "Property list"

record Order =
  order_property :: string
  direction :: Direction

text \<open>A compiled cursor is the list of its positions, each given by its start key.\<close>

record CompiledCursor =
  position_list :: "string list"

record Query =
  query_app :: string
  query_name_space :: string
  query_kind :: "string option"
  query_ancestor :: "Reference option"
  filter_list :: "Filter list"
  order_list :: "Order list"
  query_hint :: "int option"
  query_limit :: "int option"
  query_offset :: "int option"
  query_count :: "int option"
  compiled_cursor :: "CompiledCursor option"
  end_compiled_cursor :: "CompiledCursor option"
  query_transaction :: "Transaction option"
  keys_only :: bool

definition limit_of :: "Query \<Rightarrow> int" where
  "limit_of q = (case query_limit q of None \<Rightarrow> 0 | Some l \<Rightarrow> l)"

definition offset_of :: "Query \<Rightarrow> int" where
  "offset_of q = (case query_offset q of None \<Rightarrow> 0 | Some l \<Rightarrow> l)"

subsection \<open>Query cursors\<close>

text \<open>
  A row of a result set holds the path, the entity and the sort columns, the latter
  already as the strings \<^verbatim>\<open>str\<close> makes of them. A database cursor is the list of the
  rows not yet fetched together with \<^verbatim>\<open>rowcount\<close>, the size of the result set. The
  field \<open>cursor\<close> of a query cursor is \<open>None\<close> once the source has set
  \<^verbatim>\<open>self.__cursor = None\<close>; \<open>next_result\<close> is \<open>None\<close> for the pair \<^verbatim>\<open>(None, None)\<close>.
\<close>

type_synonym row = "string \<times> EntityProto \<times> string list"

record db_cursor =
  db_rows :: "row list"
  db_rowcount :: nat

record QueryCursor =
  qc_query :: Query
  qc_app :: string
  cursor :: "db_cursor option"
  seen :: "string set"
  position :: string
  next_result :: "(string \<times> EntityProto) option"
  qc_limit :: "int option"

subsection \<open>The stub and its database\<close>

text \<open>
  The tables of the database are part of the stub's state. \<open>Entities\<close> and
  \<open>EntitiesByProperty\<close> map a table prefix to the rows of that namespace's table, in
  insertion order; \<open>IdSeq\<close> maps a prefix to its counter. A row of \<open>Entities\<close> holds the
  encoded path, the kind and the stored entity (the model keeps the entity where the
  table keeps its serialisation); a row of \<open>EntitiesByProperty\<close> holds kind, name, value,
  path and the hash that is the table's primary key. Column comparison is equality of
  byte strings.
\<close>

type_synonym entity_row = "string \<times> string \<times> EntityProto"
type_synonym property_row = "string \<times> string \<times> string \<times> string \<times> string"

record Stub =
  app_id :: string
  trusted :: bool
  id_map :: "string \<rightharpoonup> (int \<times> int)"
  namespaces :: "(string \<times> string) set"
  indexes :: "string \<rightharpoonup> (string \<rightharpoonup> CompositeIndex list)"
  current_transaction :: "int option"
  next_tx_handle :: int
  transactions :: "Transaction \<rightharpoonup> string option"
  inside_tx :: bool
  tx_writes :: "Reference \<rightharpoonup> EntityProto"
  tx_deletes :: "Reference set"
  next_cursor_id :: int
  cursors :: "(string \<times> int) \<rightharpoonup> QueryCursor"
  query_history :: "Query \<Rightarrow> nat"
  IdSeq :: "string \<rightharpoonup> int"
  Entities :: "string \<Rightarrow> entity_row list"
  EntitiesByProperty :: "string \<Rightarrow> property_row list"

definition ValidateAppId :: "Stub \<Rightarrow> string \<Rightarrow> error + unit" where
  "ValidateAppId st a =
     (if a = [] then Inl AssertionError
      else if \<not> trusted st \<and> a \<noteq> app_id st
        then Inl (BadRequestError ''app %s cannot access app %s's data'')
      else Inr ())"

subsection \<open>Composite indexes\<close>

definition INDEX_STATE_TRANSITIONS :: "State \<Rightarrow> State set" where
  "INDEX_STATE_TRANSITIONS s =
     (case s of
        WRITE_ONLY \<Rightarrow> {READ_WRITE, DELETED, ERROR}
      | READ_WRITE \<Rightarrow> {DELETED}
      | ERROR \<Rightarrow> {DELETED}
      | DELETED \<Rightarrow> {ERROR})"

definition app_indexes :: "Stub \<Rightarrow> string \<Rightarrow> string \<Rightarrow> CompositeIndex list" where
  \<comment> \<open>\<^verbatim>\<open>self.__indexes.get(app, {}).get(kind, [])\<close>\<close>
  "app_indexes st a k =
     (case indexes st a of None \<Rightarrow> []
      | Some m \<Rightarrow> (case m k of None \<Rightarrow> [] | Some xs \<Rightarrow> xs))"

definition FindIndex :: "Stub \<Rightarrow> CompositeIndex \<Rightarrow> CompositeIndex option" where
  "FindIndex st index =
     find (\<lambda>stored_index. index_definition index = index_definition stored_index)
       (app_indexes st (index_app_id index) (entity_type (index_definition index)))"

fun set_state_first :: "Index \<Rightarrow> State \<Rightarrow> CompositeIndex list \<Rightarrow> CompositeIndex list" where
  "set_state_first d s [] = []"
| "set_state_first d s (x # xs) =
     (if d = index_definition x then x\<lparr>index_state := s\<rparr> # xs
      else x # set_state_first d s xs)"

definition set_state :: "Stub \<Rightarrow> CompositeIndex \<Rightarrow> State \<Rightarrow> Stub" where
  \<comment> \<open>\<^verbatim>\<open>my_index.set_state(s)\<close> on the object \<open>FindIndex\<close> returned: the first stored
      index with the definition of \<open>index\<close>, updated where it is stored.\<close>
  "set_state st index s =
     (case indexes st (index_app_id index) of
        None \<Rightarrow> st
      | Some m \<Rightarrow>
          (case m (entity_type (index_definition index)) of
             None \<Rightarrow> st
           | Some xs \<Rightarrow>
               st\<lparr>indexes := (indexes st)(index_app_id index \<mapsto>
                      m(entity_type (index_definition index) \<mapsto>
                          set_state_first (index_definition index) s xs))\<rparr>))"

definition Dynamic_UpdateIndex :: "Stub \<Rightarrow> CompositeIndex \<Rightarrow> (error + unit) \<times> Stub" where
  "Dynamic_UpdateIndex st index =
     (case ValidateAppId st (index_app_id index) of
        Inl e \<Rightarrow> (Inl e, st)
      | Inr _ \<Rightarrow>
          (case FindIndex st index of
             None \<Rightarrow> (Inl (ApplicationError BAD_REQUEST ''Index doesn't exist.''), st)
           | Some my_index \<Rightarrow>
               if index_state index \<noteq> index_state my_index \<and>
                  index_state index \<notin> INDEX_STATE_TRANSITIONS (index_state my_index)
               then (Inl (ApplicationError BAD_REQUEST
                            ''Cannot move index state from %s to %s''), st)
               else (Inr (), set_state st index (index_state index))))"

subsection \<open>Strings of the Python runtime\<close>

definition digit_char :: "nat \<Rightarrow> char" where
  "digit_char d = ''0123456789'' ! (d mod 10)"

fun str_nat :: "nat \<Rightarrow> string" where
  "str_nat n = (if n < 10 then [digit_char n] else str_nat (n div 10) @ [digit_char (n mod 10)])"

declare str_nat.simps [simp del]

definition str :: "int \<Rightarrow> string" where
  \<comment> \<open>\<^verbatim>\<open>str(i)\<close> of an integer: decimal digits, a minus sign first when negative\<close>
  "str i = (if i < 0 then CHR ''-'' # str_nat (nat (- i)) else str_nat (nat i))"

definition zfill :: "nat \<Rightarrow> string \<Rightarrow> string" where
  \<comment> \<open>\<^verbatim>\<open>s.zfill(width)\<close>: zeros on the left up to the width, after a leading sign\<close>
  "zfill width s =
     (if width \<le> length s then s
      else (case s of
              c # rest \<Rightarrow>
                if c = CHR ''+'' \<or> c = CHR ''-''
                then c # replicate (width - length s) CHR ''0'' @ rest
                else replicate (width - length s) CHR ''0'' @ s
            | [] \<Rightarrow> replicate width CHR ''0''))"

fun join :: "string \<Rightarrow> string list \<Rightarrow> string" where
  "join sep [] = []"
| "join sep [x] = x"
| "join sep (x # y # ys) = x @ sep @ join sep (y # ys)"

definition lower_char :: "char \<Rightarrow> char" where
  "lower_char c =
     (if CHR ''A'' \<le> c \<and> c \<le> CHR ''Z'' then char_of (of_char c + (32::nat)) else c)"

definition lower :: "string \<Rightarrow> string" where
  "lower s = map lower_char s"

definition word_char :: "char \<Rightarrow> bool" where
  \<comment> \<open>the characters the pattern \<^verbatim>\<open>[^\w\d_]\<close> keeps\<close>
  "word_char c =
     (c \<in> set ''abcdefghijklmnopqrstuvwxyzABCDEFGHIJKLMNOPQRSTUVWXYZ0123456789_'')"

definition formatTableName :: "string \<Rightarrow> string" where
  "formatTableName tableName = filter word_char tableName"

subsection \<open>Libraries outside the repository\<close>

text \<open>
  The stub calls the \<^verbatim>\<open>md5\<close> module and the SDK's \<^verbatim>\<open>sortable_pb_encoder\<close>. Neither is
  code of the repository; the functions that use them take them as a parameter.
\<close>

record ext =
  md5_digest :: "string \<Rightarrow> string"
  md5_hexdigest :: "string \<Rightarrow> string"
  sortable_encode :: "PropertyValue \<Rightarrow> string"

subsection \<open>The index encoding\<close>

text \<open>
  \<^verbatim>\<open>_encode_path\<close> assigns its local \<^verbatim>\<open>id\<close> only for an element that has a name or an
  id; for an element with neither, the variable still holds what the previous element
  left there, and before the first assignment reading it raises \<^verbatim>\<open>UnboundLocalError\<close>.
  The first argument of \<open>encode_path_loop\<close> is the variable: \<open>None\<close> while it is not
  assigned.
\<close>

fun encode_path_loop :: "string option \<Rightarrow> Path \<Rightarrow> error + string list" where
  "encode_path_loop ident [] = Inr []"
| "encode_path_loop ident (e # es) =
     (let ident' = (if has_name e then Some (name_of e)
                    else if has_id e then Some (zfill 10 (str (id_of e)))
                    else ident)
      in case ident' of
           None \<Rightarrow> Inl UnboundLocalError
         | Some i \<Rightarrow>
             (case encode_path_loop ident' es of
                Inl err \<Rightarrow> Inl err
              | Inr parts \<Rightarrow> Inr ((elem_type e @ '':'' @ i) # parts)))"

definition encode_path :: "Path \<Rightarrow> error + string" where
  "encode_path pb =
     (case encode_path_loop None pb of
        Inl err \<Rightarrow> Inl err
      | Inr parts \<Rightarrow> Inr (join ''!'' parts))"

datatype pb = PB_PropertyValue PropertyValue | PB_Path Path

definition empty_PropertyValue :: PropertyValue where
  "empty_PropertyValue =
     \<lparr>int64value = None, booleanvalue = None, stringvalue = None, doublevalue = None,
      pointvalue = None, uservalue = None, referencevalue = None\<rparr>"

fun EncodeIndexPB :: "ext \<Rightarrow> pb \<Rightarrow> error + string" where
  "EncodeIndexPB x (PB_PropertyValue v) =
     (case uservalue v of
        Some u \<Rightarrow>
          Inr (sortable_encode x
                 (empty_PropertyValue\<lparr>uservalue :=
                    Some \<lparr>email = email u, auth_domain = auth_domain u, nickname = None,
                          gaiaid = 0, obfuscated_gaiaid = None\<rparr>\<rparr>))
      | None \<Rightarrow> Inr (sortable_encode x v))"
| "EncodeIndexPB x (PB_Path p) = encode_path p"



subsection \<open>The order of keys\<close>





text \<open>The decimal digits of a number at a fixed width, the lowest last.\<close>

fun pad :: "nat \<Rightarrow> nat \<Rightarrow> string" where
  "pad 0 n = []"
| "pad (Suc k) n = pad k (n div 10) @ [digit_char (n mod 10)]"

subsection \<open>Validation and connections\<close>

definition ValidateKey :: "Stub \<Rightarrow> Reference \<Rightarrow> error + unit" where
  "ValidateKey st k =
     (case ValidateAppId st (app k) of
        Inl e \<Rightarrow> Inl e
      | Inr _ \<Rightarrow>
          if \<exists>elem \<in> set (path k). has_id elem = has_name elem
          then Inl (BadRequestError
                      ''each key path element should have id or name but not both: %r'')
          else Inr ())"

definition tx_handle :: "Transaction option \<Rightarrow> int" where
  \<comment> \<open>\<^verbatim>\<open>request.transaction().handle()\<close>: 0 when the request carries no transaction\<close>
  "tx_handle t = (case t of None \<Rightarrow> 0 | Some tx \<Rightarrow> handle tx)"

definition GetConnection :: "Stub \<Rightarrow> Transaction option \<Rightarrow> error + unit" where
  "GetConnection st transaction =
     (let request_tx = (if tx_handle transaction = 0 then None
                        else Some (tx_handle transaction))
      in if request_tx \<noteq> current_transaction st
         then Inl (ApplicationError BAD_REQUEST
                     ''Only one concurrent transaction per thread is permitted.'')
         else Inr ())"

subsection \<open>Namespaces\<close>

text \<open>
  \<^verbatim>\<open>__ConfigureNamespace\<close> runs the namespace schema. The two tables it creates are the
  entries of \<open>Entities\<close> and \<open>EntitiesByProperty\<close> under the prefix; the statement that
  matters to the stub's own state is \<^verbatim>\<open>INSERT IGNORE INTO IdSeq VALUES (prefix, 1)\<close>. The
  statements are taken to be accepted by the database.
\<close>

definition ConfigureNamespace :: "Stub \<Rightarrow> string \<Rightarrow> string \<Rightarrow> string \<Rightarrow> Stub" where
  "ConfigureNamespace st prefix a ns =
     (case IdSeq st prefix of
        None \<Rightarrow> st\<lparr>IdSeq := (IdSeq st)(prefix \<mapsto> 1)\<rparr>
      | Some _ \<Rightarrow> st)"

definition replace_dquote :: "string \<Rightarrow> string" where
  \<comment> \<open>\<^verbatim>\<open>.replace('"', '""')\<close>\<close>
  "replace_dquote s = concat (map (\<lambda>c. if c = CHR 0x22 then [c, c] else [c]) s)"

definition GetTablePrefix :: "Stub \<Rightarrow> string \<times> string \<Rightarrow> string \<times> Stub" where
  "GetTablePrefix st data =
     (let prefix = formatTableName (replace_dquote (fst data @ ''_'' @ snd data))
      in if data \<notin> namespaces st
         then (prefix,
               ConfigureNamespace (st\<lparr>namespaces := insert data (namespaces st)\<rparr>)
                 prefix (fst data) (snd data))
         else (prefix, st))"

subsection \<open>The id allocator\<close>

text \<open>
  The \<^verbatim>\<open>UPDATE\<close> of \<open>IdSeq\<close> touches one row when the prefix has a row and none
  otherwise, which the assertion on \<^verbatim>\<open>cursor.rowcount\<close> turns into an error. The counter
  is an unbounded integer here.
\<close>

definition cached :: "Stub \<Rightarrow> string \<Rightarrow> int \<times> int" where
  \<comment> \<open>\<^verbatim>\<open>self.__id_map.get(prefix, (0, 0))\<close>: the next id and the size of what is left of
      the block\<close>
  "cached st prefix = (case id_map st prefix of None \<Rightarrow> (0, 0) | Some c \<Rightarrow> c)"

definition AllocateIds :: "Stub \<Rightarrow> string \<Rightarrow> int \<Rightarrow> (error + int) \<times> Stub" where
  "AllocateIds st prefix size' =
     (let (next_id, block_size) = cached st prefix
      in if size' \<ge> block_size
         then (let block_size' = max 1000 size'
               in case IdSeq st prefix of
                    None \<Rightarrow> (Inl AssertionError, st)
                  | Some counter \<Rightarrow>
                      (let next_id' = (counter + block_size') - block_size'
                       in (Inr next_id',
                           st\<lparr>IdSeq := (IdSeq st)(prefix \<mapsto> counter + block_size'),
                              id_map := (id_map st)(prefix \<mapsto>
                                          (next_id' + size', block_size' - size'))\<rparr>)))
         else (Inr next_id,
               st\<lparr>id_map := (id_map st)(prefix \<mapsto> (next_id + size', block_size - size'))\<rparr>))"

text \<open>A sequence of calls, stopped by the first that raises.\<close>

fun allocate_all :: "Stub \<Rightarrow> (string \<times> int) list \<Rightarrow> (error + int list) \<times> Stub" where
  "allocate_all st [] = (Inr [], st)"
| "allocate_all st ((prefix, n) # calls) =
     (case AllocateIds st prefix n of
        (Inl err, st') \<Rightarrow> (Inl err, st')
      | (Inr start, st') \<Rightarrow>
          (case allocate_all st' calls of
             (Inl err, st'') \<Rightarrow> (Inl err, st'')
           | (Inr starts, st'') \<Rightarrow> (Inr (start # starts), st'')))"

text \<open>
  What the cache owes the counter: a cached block is not negative in size and ends at
  or below the counter of its prefix. A new stub has an empty cache.
\<close>

definition id_cache_ok :: "Stub \<Rightarrow> bool" where
  "id_cache_ok st =
     (\<forall>prefix next_id block_size. id_map st prefix = Some (next_id, block_size) \<longrightarrow>
        0 \<le> block_size \<and> (\<exists>counter. IdSeq st prefix = Some counter \<and> next_id + block_size \<le> counter))"

subsection \<open>Rows of the entity tables\<close>

datatype table = T_Entities | T_EntitiesByProperty

definition DeleteRows :: "Stub \<Rightarrow> string list \<Rightarrow> string \<Rightarrow> table \<Rightarrow> nat \<times> Stub" where
  \<comment> \<open>\<^verbatim>\<open>DELETE FROM prefix_table WHERE __path__ IN (paths)\<close>; the result is
      \<^verbatim>\<open>cursor.rowcount\<close>\<close>
  "DeleteRows st paths prefix t =
     (case t of
        T_Entities \<Rightarrow>
          (length (filter (\<lambda>r. fst r \<in> set paths) (Entities st prefix)),
           st\<lparr>Entities := (Entities st)(prefix :=
                  filter (\<lambda>r. fst r \<notin> set paths) (Entities st prefix))\<rparr>)
      | T_EntitiesByProperty \<Rightarrow>
          (length (filter (\<lambda>(k, n, v, p, h). p \<in> set paths) (EntitiesByProperty st prefix)),
           st\<lparr>EntitiesByProperty := (EntitiesByProperty st)(prefix :=
                  filter (\<lambda>(k, n, v, p, h). p \<notin> set paths) (EntitiesByProperty st prefix))\<rparr>))"

function groupby :: "('a \<Rightarrow> 'k) \<Rightarrow> 'a list \<Rightarrow> ('k \<times> 'a list) list" where
  "groupby f [] = []"
| "groupby f (x # xs) =
     (f x, x # takeWhile (\<lambda>y. f y = f x) xs) # groupby f (dropWhile (\<lambda>y. f y = f x) xs)"
  by pat_completeness auto
termination
  by (relation "measure (\<lambda>(f, xs). length xs)")
     (auto simp: length_dropWhile_le le_imp_less_Suc)

fun collect :: "('a \<Rightarrow> error + 'b) \<Rightarrow> 'a list \<Rightarrow> error + 'b list" where
  \<comment> \<open>the rows a generator yields, or the first exception it raises\<close>
  "collect f [] = Inr []"
| "collect f (x # xs) =
     (case f x of
        Inl e \<Rightarrow> Inl e
      | Inr y \<Rightarrow> (case collect f xs of Inl e \<Rightarrow> Inl e | Inr ys \<Rightarrow> Inr (y # ys)))"

text \<open>
  \<^verbatim>\<open>__DeleteEntityRows\<close> sorts the keys by application and namespace and walks the
  groups, but its \<^verbatim>\<open>return\<close> stands inside the loop: the first group is deleted and the
  method returns. With no key at all the loop body never runs and the method returns
  \<^verbatim>\<open>None\<close>. The paths of the group are encoded before the table prefix is looked up.
  Python's sort also compares the keys themselves where application and namespace are
  equal; the order inside a group does not matter to the statement.
\<close>

definition DeleteEntityRows :: "Stub \<Rightarrow> Reference list \<Rightarrow> table \<Rightarrow> (error + nat option) \<times> Stub" where
  "DeleteEntityRows st keys t =
     (case groupby (\<lambda>x. (app x, name_space x))
             (sort_key (\<lambda>x. (app x, name_space x)) keys) of
        [] \<Rightarrow> (Inr None, st)
      | ((a, ns), grp) # _ \<Rightarrow>
          (case collect (\<lambda>x. encode_path (path x)) grp of
             Inl err \<Rightarrow> (Inl err, st)
           | Inr path_strings \<Rightarrow>
               (let (prefix, st') = GetTablePrefix st (a, ns);
                    (n, st'') = DeleteRows st' path_strings prefix t
                in (Inr (Some n), st''))))"

definition DeleteIndexEntries :: "Stub \<Rightarrow> Reference list \<Rightarrow> (error + unit) \<times> Stub" where
  "DeleteIndexEntries st keys =
     (case DeleteEntityRows st keys T_EntitiesByProperty of
        (Inl err, st') \<Rightarrow> (Inl err, st')
      | (Inr _, st') \<Rightarrow> (Inr (), st'))"

definition GetEntityKind :: "Reference \<Rightarrow> error + string" where
  \<comment> \<open>\<^verbatim>\<open>key.path().element_list()[-1].type()\<close>\<close>
  "GetEntityKind k = (if path k = [] then Inl IndexError else Inr (elem_type (last (path k))))"

fun prefixes :: "Stub \<Rightarrow> EntityProto list \<Rightarrow> (string \<times> EntityProto) list \<times> Stub" where
  \<comment> \<open>\<^verbatim>\<open>(self.__GetTablePrefix(x), x) for x in entities\<close>\<close>
  "prefixes st [] = ([], st)"
| "prefixes st (x # xs) =
     (let (prefix, st') = GetTablePrefix st (app (key x), name_space (key x));
          (rest, st'') = prefixes st' xs
      in ((prefix, x) # rest, st''))"

definition entity_row_of :: "EntityProto \<Rightarrow> error + entity_row" where
  \<comment> \<open>the tuple is built from the left: the path is encoded, then the kind is read\<close>
  "entity_row_of e =
     (case encode_path (path (key e)) of
        Inl err \<Rightarrow> Inl err
      | Inr pth \<Rightarrow>
          (case GetEntityKind (key e) of
             Inl err \<Rightarrow> Inl err
           | Inr kind \<Rightarrow> Inr (pth, kind, e)))"

definition replace_row :: "entity_row list \<Rightarrow> entity_row \<Rightarrow> entity_row list" where
  \<comment> \<open>\<^verbatim>\<open>REPLACE INTO\<close>: the row with the same primary key goes, the new row comes\<close>
  "replace_row rows r = filter (\<lambda>r'. fst r' \<noteq> fst r) rows @ [r]"

text \<open>
  Python's sort of the \<open>(prefix, entity)\<close> pairs compares the entities where the
  prefixes are equal; here entities of one prefix keep the order of the request.
\<close>

fun insert_groups :: "Stub \<Rightarrow> (string \<times> (string \<times> EntityProto) list) list \<Rightarrow> (error + unit) \<times> Stub" where
  "insert_groups st [] = (Inr (), st)"
| "insert_groups st ((prefix, grp) # gs) =
     (case collect (\<lambda>(unused_prefix, e). entity_row_of e) grp of
        Inl err \<Rightarrow> (Inl err, st)
      | Inr group_rows \<Rightarrow>
          insert_groups
            (st\<lparr>Entities := (Entities st)(prefix := foldl replace_row (Entities st prefix) group_rows)\<rparr>)
            gs)"

definition InsertEntities :: "Stub \<Rightarrow> EntityProto list \<Rightarrow> (error + unit) \<times> Stub" where
  "InsertEntities st entities =
     (let (pairs, st') = prefixes st entities
      in insert_groups st' (groupby fst (sort_key fst pairs)))"

definition property_rows_of :: "ext \<Rightarrow> EntityProto \<Rightarrow> error + property_row list" where
  "property_rows_of x e =
     collect (\<lambda>p. case GetEntityKind (key e) of
                     Inl err \<Rightarrow> Inl err
                   | Inr kind \<Rightarrow>
                       (case EncodeIndexPB x (PB_PropertyValue (prop_value p)) of
                          Inl err \<Rightarrow> Inl err
                        | Inr v \<Rightarrow>
                            (case EncodeIndexPB x (PB_Path (path (key e))) of
                               Inl err \<Rightarrow> Inl err
                             | Inr pth \<Rightarrow>
                                 Inr (kind, prop_name p, v, pth,
                                      md5_hexdigest x (kind @ prop_name p @ v @ pth)))))
       (property_list e)"

definition insert_ignore :: "property_row list \<Rightarrow> property_row \<Rightarrow> property_row list" where
  \<comment> \<open>\<^verbatim>\<open>INSERT IGNORE\<close>: a row whose primary key (the hash) is there already is dropped\<close>
  "insert_ignore rows r =
     (if snd (snd (snd (snd r))) \<in> (\<lambda>r'. snd (snd (snd (snd r')))) ` set rows then rows
      else rows @ [r])"

fun insert_index_groups :: "ext \<Rightarrow> Stub \<Rightarrow> (string \<times> (string \<times> EntityProto) list) list \<Rightarrow> (error + unit) \<times> Stub" where
  "insert_index_groups x st [] = (Inr (), st)"
| "insert_index_groups x st ((prefix, grp) # gs) =
     (case collect (\<lambda>(unused_prefix, e). property_rows_of x e) grp of
        Inl err \<Rightarrow> (Inl err, st)
      | Inr rowss \<Rightarrow>
          insert_index_groups x
            (st\<lparr>EntitiesByProperty := (EntitiesByProperty st)(prefix :=
                   foldl insert_ignore (EntitiesByProperty st prefix) (concat rowss))\<rparr>)
            gs)"

definition InsertIndexEntries :: "ext \<Rightarrow> Stub \<Rightarrow> EntityProto list \<Rightarrow> (error + unit) \<times> Stub" where
  "InsertIndexEntries x st entities =
     (let (pairs, st') = prefixes st entities
      in insert_index_groups x st' (groupby fst (sort_key fst pairs)))"

definition PutEntities :: "ext \<Rightarrow> Stub \<Rightarrow> EntityProto list \<Rightarrow> (error + unit) \<times> Stub" where
  "PutEntities x st entities =
     (case DeleteIndexEntries st (map key entities) of
        (Inl err, st1) \<Rightarrow> (Inl err, st1)
      | (Inr _, st1) \<Rightarrow>
          (case InsertEntities st1 entities of
             (Inl err, st2) \<Rightarrow> (Inl err, st2)
           | (Inr _, st2) \<Rightarrow> InsertIndexEntries x st2 entities))"

definition DeleteEntities :: "Stub \<Rightarrow> Reference list \<Rightarrow> (error + unit) \<times> Stub" where
  "DeleteEntities st keys =
     (case DeleteIndexEntries st keys of
        (Inl err, st1) \<Rightarrow> (Inl err, st1)
      | (Inr _, st1) \<Rightarrow>
          (case DeleteEntityRows st1 keys T_Entities of
             (Inl err, st2) \<Rightarrow> (Inl err, st2)
           | (Inr _, st2) \<Rightarrow> (Inr (), st2)))"

subsection \<open>Transactions and the entity-group lock\<close>

definition Dynamic_BeginTransaction :: "Stub \<Rightarrow> string \<Rightarrow> (error + Transaction) \<times> Stub" where
  "Dynamic_BeginTransaction st request_app =
     (case ValidateAppId st request_app of
        Inl e \<Rightarrow> (Inl e, st)
      | Inr _ \<Rightarrow>
          if current_transaction st \<noteq> None then (Inl AssertionError, st)
          else (let h = next_tx_handle st;
                    transaction = \<lparr>tx_app = request_app, handle = h\<rparr>;
                    st' = st\<lparr>next_tx_handle := h + 1, current_transaction := Some h\<rparr>
                in if transaction \<in> dom (transactions st') then (Inl AssertionError, st')
                   else (Inr transaction,
                         st'\<lparr>transactions := (transactions st')(transaction \<mapsto> None)\<rparr>)))"

definition ExtractEntityGroupFromKeys :: "Reference list \<Rightarrow> error + string" where
  "ExtractEntityGroupFromKeys keys =
     (if \<exists>k \<in> set keys. path k = [] then Inl IndexError
      else (case remdups (map (\<lambda>k. elem_type (last (path k))) keys) of
              [t] \<Rightarrow> Inr t
            | _ \<Rightarrow> Inl AssertionError))"

text \<open>
  The first operation of a transaction names its entity group and takes the lock.
  \<^verbatim>\<open>_Dynamic_Put\<close> and \<^verbatim>\<open>_Dynamic_Get\<close> record the group under their request's
  transaction. \<^verbatim>\<open>_Dynamic_Delete\<close> writes \<^verbatim>\<open>request.transaction()\<close> at that place, a
  name its body does not bind: the statement raises \<^verbatim>\<open>NameError\<close>, after
  \<^verbatim>\<open>__inside_tx\<close> has been set.
\<close>

definition enter_tx :: "Stub \<Rightarrow> Transaction option \<Rightarrow> Reference list \<Rightarrow> (error + unit) \<times> Stub" where
  \<comment> \<open>the \<^verbatim>\<open>if request.has_transaction():\<close> block of \<^verbatim>\<open>_Dynamic_Put\<close> and \<^verbatim>\<open>_Dynamic_Get\<close>\<close>
  "enter_tx st transaction keys =
     (case transaction of
        None \<Rightarrow> (Inr (), st)
      | Some t \<Rightarrow>
          if t \<in> dom (transactions st) \<and> \<not> inside_tx st
          then (case ExtractEntityGroupFromKeys keys of
                  Inl e \<Rightarrow> (Inl e, st)
                | Inr entity_group' \<Rightarrow>
                    (Inr (), st\<lparr>inside_tx := True,
                                transactions := (transactions st)(t \<mapsto> Some entity_group')\<rparr>))
          else (Inr (), st))"

definition enter_tx_delete :: "Stub \<Rightarrow> Transaction option \<Rightarrow> Reference list \<Rightarrow> (error + unit) \<times> Stub" where
  \<comment> \<open>the same block of \<^verbatim>\<open>_Dynamic_Delete\<close>\<close>
  "enter_tx_delete st transaction keys =
     (case transaction of
        None \<Rightarrow> (Inr (), st)
      | Some t \<Rightarrow>
          if t \<in> dom (transactions st) \<and> \<not> inside_tx st
          then (case ExtractEntityGroupFromKeys keys of
                  Inl e \<Rightarrow> (Inl e, st)
                | Inr entity_group' \<Rightarrow>
                    (Inl (NameError ''global name 'request' is not defined''),
                     st\<lparr>inside_tx := True\<rparr>))
          else (Inr (), st))"

subsection \<open>Put, Get and Delete\<close>

definition fmt02d :: "nat \<Rightarrow> string" where
  \<comment> \<open>\<^verbatim>\<open>'%02d' % n\<close>\<close>
  "fmt02d n = zfill 2 (str_nat n)"

definition obfuscate :: "ext \<Rightarrow> string \<Rightarrow> string" where
  "obfuscate x mail =
     CHR ''1'' # take 20 (concat (map (\<lambda>c. fmt02d (of_char c)) (md5_digest x (lower mail))))"

definition set_obfuscated_gaiaid :: "ext \<Rightarrow> Property \<Rightarrow> Property" where
  "set_obfuscated_gaiaid x p =
     (case uservalue (prop_value p) of
        None \<Rightarrow> p
      | Some u \<Rightarrow>
          p\<lparr>prop_value := (prop_value p)\<lparr>uservalue :=
               Some (u\<lparr>obfuscated_gaiaid := Some (obfuscate x (email u))\<rparr>)\<rparr>\<rparr>)"

record PutRequest =
  put_transaction :: "Transaction option"
  entity_list :: "EntityProto list"

record GetRequest =
  get_transaction :: "Transaction option"
  get_key_list :: "Reference list"

record DeleteRequest =
  delete_transaction :: "Transaction option"
  delete_key_list :: "Reference list"

definition entity_group_size :: "EntityProto \<Rightarrow> nat" where
  \<comment> \<open>\<^verbatim>\<open>entity.entity_group().element_size()\<close>\<close>
  "entity_group_size e = (case entity_group e of None \<Rightarrow> 0 | Some g \<Rightarrow> length g)"

text \<open>
  The body of the loop over the entities of a put request, in two parts: up to the
  test of the transaction handle (\<open>complete_entity\<close>), and with it (\<open>put_entity\<close>). The
  source changes the entity of the request in place; the model returns the entity as
  the body leaves it.
\<close>

definition complete_entity :: "ext \<Rightarrow> Stub \<Rightarrow> EntityProto \<Rightarrow> (error + EntityProto) \<times> Stub" where
  "complete_entity x st entity =
     (case ValidateKey st (key entity) of
        Inl err \<Rightarrow> (Inl err, st)
      | Inr _ \<Rightarrow>
          (let entity1 = entity\<lparr>property_list := map (set_obfuscated_gaiaid x) (property_list entity),
                                raw_property_list := map (set_obfuscated_gaiaid x) (raw_property_list entity)\<rparr>
           in if path (key entity1) = [] then (Inl AssertionError, st)
              else (let last_path = last (path (key entity1))
                    in if id_of last_path = 0 \<and> \<not> has_name last_path
                       then (let (prefix, st1) = GetTablePrefix st (app (key entity1), name_space (key entity1))
                             in case AllocateIds st1 prefix 1 of
                                  (Inl err, st2) \<Rightarrow> (Inl err, st2)
                                | (Inr id', st2) \<Rightarrow>
                                    (let k = (key entity1)\<lparr>path :=
                                           butlast (path (key entity1)) @ [last_path\<lparr>elem_id := Some id'\<rparr>]\<rparr>;
                                         entity2 = entity1\<lparr>key := k\<rparr>
                                     in if entity_group_size entity2 \<noteq> 0 then (Inl AssertionError, st2)
                                        else (Inr (entity2\<lparr>entity_group := Some [hd (path k)]\<rparr>), st2)))
                       else if entity_group entity1 \<noteq> None \<and> entity_group_size entity1 > 0
                         then (Inr entity1, st)
                         else (Inl AssertionError, st))))"

definition put_entity :: "ext \<Rightarrow> Transaction option \<Rightarrow> Stub \<Rightarrow> EntityProto \<Rightarrow> (error + EntityProto) \<times> Stub" where
  "put_entity x transaction st entity =
     (case complete_entity x st entity of
        (Inl err, st3) \<Rightarrow> (Inl err, st3)
      | (Inr entity3, st3) \<Rightarrow>
          if tx_handle transaction \<noteq> 0
          then (Inr entity3,
                st3\<lparr>tx_writes := (tx_writes st3)(key entity3 \<mapsto> entity3),
                    tx_deletes := tx_deletes st3 - {key entity3}\<rparr>)
          else (Inr entity3, st3))"

fun put_loop :: "ext \<Rightarrow> Transaction option \<Rightarrow> Stub \<Rightarrow> EntityProto list \<Rightarrow> (error + EntityProto list) \<times> Stub" where
  "put_loop x transaction st [] = (Inr [], st)"
| "put_loop x transaction st (entity # entities) =
     (case put_entity x transaction st entity of
        (Inl err, st') \<Rightarrow> (Inl err, st')
      | (Inr entity', st') \<Rightarrow>
          (case put_loop x transaction st' entities of
             (Inl err, st'') \<Rightarrow> (Inl err, st'')
           | (Inr entities', st'') \<Rightarrow> (Inr (entity' # entities'), st'')))"

text \<open>The result of a put is the key list of the response.\<close>

definition Dynamic_Put :: "ext \<Rightarrow> Stub \<Rightarrow> PutRequest \<Rightarrow> (error + Reference list) \<times> Stub" where
  "Dynamic_Put x st put_request =
     (case GetConnection st (put_transaction put_request) of
        Inl err \<Rightarrow> (Inl err, st)
      | Inr _ \<Rightarrow>
          (case enter_tx st (put_transaction put_request) (map key (entity_list put_request)) of
             (Inl err, st1) \<Rightarrow> (Inl err, st1)
           | (Inr _, st1) \<Rightarrow>
               (case put_loop x (put_transaction put_request) st1 (entity_list put_request) of
                  (Inl err, st2) \<Rightarrow> (Inl err, st2)
                | (Inr entities, st2) \<Rightarrow>
                    if tx_handle (put_transaction put_request) = 0
                    then (case PutEntities x st2 entities of
                            (Inl err, st3) \<Rightarrow> (Inl err, st3)
                          | (Inr _, st3) \<Rightarrow> (Inr (map key entities), st3))
                    else (Inr (map key entities), st2))))"

text \<open>The result of a get is the entity list of the response: one entry per key, empty
  where the table has no row.\<close>

fun get_loop :: "Stub \<Rightarrow> Reference list \<Rightarrow> (error + EntityProto option list) \<times> Stub" where
  "get_loop st [] = (Inr [], st)"
| "get_loop st (k # keys) =
     (case ValidateAppId st (app k) of
        Inl err \<Rightarrow> (Inl err, st)
      | Inr _ \<Rightarrow>
          (let (prefix, st') = GetTablePrefix st (app k, name_space k)
           in case encode_path (path k) of
                Inl err \<Rightarrow> (Inl err, st')
              | Inr pth \<Rightarrow>
                  (let row = find (\<lambda>r. fst r = pth) (Entities st' prefix)
                   in case get_loop st' keys of
                        (Inl err, st'') \<Rightarrow> (Inl err, st'')
                      | (Inr rest, st'') \<Rightarrow>
                          (Inr (map_option (\<lambda>r. snd (snd r)) row # rest), st''))))"

definition Dynamic_Get :: "Stub \<Rightarrow> GetRequest \<Rightarrow> (error + EntityProto option list) \<times> Stub" where
  "Dynamic_Get st get_request =
     (case GetConnection st (get_transaction get_request) of
        Inl err \<Rightarrow> (Inl err, st)
      | Inr _ \<Rightarrow>
          (case enter_tx st (get_transaction get_request) (get_key_list get_request) of
             (Inl err, st1) \<Rightarrow> (Inl err, st1)
           | (Inr _, st1) \<Rightarrow> get_loop st1 (get_key_list get_request)))"

fun delete_loop :: "Transaction option \<Rightarrow> Stub \<Rightarrow> Reference list \<Rightarrow> (error + unit) \<times> Stub" where
  "delete_loop transaction st [] = (Inr (), st)"
| "delete_loop transaction st (k # keys) =
     (case ValidateAppId st (app k) of
        Inl err \<Rightarrow> (Inl err, st)
      | Inr _ \<Rightarrow>
          delete_loop transaction
            (if tx_handle transaction \<noteq> 0
             then st\<lparr>tx_deletes := insert k (tx_deletes st),
                     tx_writes := (tx_writes st)(k := None)\<rparr>
             else st)
            keys)"

definition Dynamic_Delete :: "Stub \<Rightarrow> DeleteRequest \<Rightarrow> (error + unit) \<times> Stub" where
  "Dynamic_Delete st delete_request =
     (case GetConnection st (delete_transaction delete_request) of
        Inl err \<Rightarrow> (Inl err, st)
      | Inr _ \<Rightarrow>
          (case enter_tx_delete st (delete_transaction delete_request) (delete_key_list delete_request) of
             (Inl err, st1) \<Rightarrow> (Inl err, st1)
           | (Inr _, st1) \<Rightarrow>
               (case delete_loop (delete_transaction delete_request) st1 (delete_key_list delete_request) of
                  (Inl err, st2) \<Rightarrow> (Inl err, st2)
                | (Inr _, st2) \<Rightarrow>
                    if tx_handle (delete_transaction delete_request) = 0
                    then DeleteEntities st2 (delete_key_list delete_request)
                    else (Inr (), st2))))"

subsection \<open>The transaction's write-set and delete-set\<close>

text \<open>
  The requests that read or change \<^verbatim>\<open>__tx_writes\<close> and \<^verbatim>\<open>__tx_deletes\<close> between the
  begin of a transaction and its end, and the stub serving a sequence of them. A
  request that raises leaves the stub as it was at the raise.
\<close>

datatype request =
  Req_Put PutRequest | Req_Get GetRequest | Req_Delete DeleteRequest | Req_Begin string

fun dispatch :: "ext \<Rightarrow> Stub \<Rightarrow> request \<Rightarrow> Stub" where
  "dispatch x st (Req_Put r) = snd (Dynamic_Put x st r)"
| "dispatch x st (Req_Get r) = snd (Dynamic_Get st r)"
| "dispatch x st (Req_Delete r) = snd (Dynamic_Delete st r)"
| "dispatch x st (Req_Begin a) = snd (Dynamic_BeginTransaction st a)"

definition serve :: "ext \<Rightarrow> Stub \<Rightarrow> request list \<Rightarrow> Stub" where
  "serve x st requests = foldl (dispatch x) st requests"

definition tx_sets :: "Stub \<Rightarrow> (Reference \<rightharpoonup> EntityProto) \<times> Reference set" where
  "tx_sets st = (tx_writes st, tx_deletes st)"

definition complete_key :: "Reference \<Rightarrow> bool" where
  "complete_key k = (path k \<noteq> [] \<and> (id_of (last (path k)) \<noteq> 0 \<or> has_name (last (path k))))"

definition tx_disjoint :: "Stub \<Rightarrow> bool" where
  "tx_disjoint st = (dom (tx_writes st) \<inter> tx_deletes st = {})"

text \<open>What a Get reads of the stub: the fields the application check and the
  connection check look at, and the entity tables.\<close>

definition kept :: "Stub \<Rightarrow> string \<times> bool \<times> int option \<times> (string \<Rightarrow> entity_row list)" where
  "kept st = (app_id st, trusted st, current_transaction st, Entities st)"

subsection \<open>The query cursor's methods\<close>

definition MAXIMUM_RESULTS :: int where
  "MAXIMUM_RESULTS = 1000"

definition MAX_QUERY_COMPONENTS :: int where
  "MAX_QUERY_COMPONENTS = 63"

definition BATCH_SIZE :: int where
  "BATCH_SIZE = 20"

definition QueryCursor_init :: "Query \<Rightarrow> db_cursor \<Rightarrow> QueryCursor" where
  "QueryCursor_init query dbc =
     \<lparr>qc_query = query, qc_app = query_app query, cursor = Some dbc, seen = {},
      position = [], next_result = None,
      qc_limit = (if query_limit query \<noteq> None then Some (limit_of query + offset_of query)
                  else None)\<rparr>"

fun Count_loop :: "int option \<Rightarrow> int \<Rightarrow> row list \<Rightarrow> int \<times> row list" where
  "Count_loop lim n [] = (n, [])"
| "Count_loop lim n (r # rs) =
     (if lim = None \<or> n < the lim then Count_loop lim (n + 1) rs else (n, r # rs))"

definition Count :: "QueryCursor \<Rightarrow> (error + int) \<times> QueryCursor" where
  \<comment> \<open>\<^verbatim>\<open>self.__cursor.fetchone()\<close> on a cursor that is \<^verbatim>\<open>None\<close> is an attribute error;
      the loop is not entered when the limit is there and not positive\<close>
  "Count c =
     (case cursor c of
        None \<Rightarrow>
          if qc_limit c = None \<or> 0 < the (qc_limit c) then (Inl AttributeError, c)
          else (Inr 0, c)
      | Some dbc \<Rightarrow>
          (let (n, rest) = Count_loop (qc_limit c) 0 (db_rows dbc)
           in (Inr n, c\<lparr>cursor := Some (dbc\<lparr>db_rows := rest\<rparr>)\<rparr>)))"

definition query_direction :: "Query \<Rightarrow> Direction" where
  "query_direction q = (case order_list q of [] \<Rightarrow> ASCENDING | ord # _ \<Rightarrow> direction ord)"

definition GetResult :: "QueryCursor \<Rightarrow> (error + (string \<times> EntityProto) option) \<times> QueryCursor" where
  "GetResult c =
     (case cursor c of
        None \<Rightarrow> (Inr None, c)
      | Some dbc \<Rightarrow>
          (case db_rows dbc of
             [] \<Rightarrow> (Inr None, c\<lparr>cursor := None\<rparr>)
           | (path', data, position_parts) # rest \<Rightarrow>
               (let c1 = c\<lparr>cursor := Some (dbc\<lparr>db_rows := rest\<rparr>)\<rparr>;
                    position' = concat position_parts
                in case end_compiled_cursor (qc_query c) of
                     None \<Rightarrow> (Inr (Some (path', data)), c1\<lparr>position := position'\<rparr>)
                   | Some ecc \<Rightarrow>
                       (case position_list ecc of
                          [] \<Rightarrow> (Inl IndexError, c1)
                        | start_key # _ \<Rightarrow>
                            if (query_direction (qc_query c) = ASCENDING \<and> position' > start_key) \<or>
                               (query_direction (qc_query c) = DESCENDING \<and> position' < start_key)
                            then (Inr None, c1\<lparr>cursor := None\<rparr>)
                            else (Inr (Some (path', data)), c1\<lparr>position := position'\<rparr>)))))"

definition remaining :: "QueryCursor \<Rightarrow> nat" where
  \<comment> \<open>what the loops over the database cursor count down\<close>
  "remaining c = (case cursor c of None \<Rightarrow> 0 | Some dbc \<Rightarrow> Suc (length (db_rows dbc)))"

lemma GetResult_remaining:
  "cursor c = Some dbc \<Longrightarrow> (r, c') = GetResult c \<Longrightarrow> remaining c' < remaining c"
  by (auto simp: GetResult_def remaining_def Let_def
           split: option.splits list.splits prod.splits if_splits)

lemma remaining_next_result [simp]: "remaining (c\<lparr>next_result := r\<rparr>) = remaining c"
  by (simp add: remaining_def)

text \<open>
  \<^verbatim>\<open>_Next\<close> returns the entity parsed from the row's data. The model returns the row's
  path with it, so that a statement can speak of the path a result was delivered under.
\<close>

definition unseen :: "QueryCursor \<Rightarrow> (string \<times> EntityProto) option \<Rightarrow> bool" where
  \<comment> \<open>\<^verbatim>\<open>path and path not in self.__seen\<close>\<close>
  "unseen c pending =
     (case pending of None \<Rightarrow> False | Some (path', data) \<Rightarrow> path' \<noteq> [] \<and> path' \<notin> seen c)"

function Next_loop :: "QueryCursor \<Rightarrow> (string \<times> EntityProto) option \<Rightarrow> (error + (string \<times> EntityProto) option) \<times> QueryCursor" where
  "Next_loop c pending =
     (if cursor c = None then (Inr None, c)
      else if unseen c pending
        then (Inr pending, c\<lparr>seen := insert (fst (the pending)) (seen c)\<rparr>)
      else (case GetResult c of
              (Inl err, c') \<Rightarrow> (Inl err, c')
            | (Inr r, c') \<Rightarrow> Next_loop c' r))"
  by pat_completeness auto
termination
  by (relation "measure (\<lambda>(c, pending). remaining c)") (auto elim: GetResult_remaining)

declare Next_loop.simps [simp del]

definition Next :: "QueryCursor \<Rightarrow> (error + (string \<times> EntityProto) option) \<times> QueryCursor" where
  "Next c = Next_loop (c\<lparr>next_result := None\<rparr>) (next_result c)"

text \<open>\<^verbatim>\<open>Skip\<close> drops what \<^verbatim>\<open>_Next\<close> returns; the model hands the dropped results back.\<close>

fun Skip_loop :: "nat \<Rightarrow> QueryCursor \<Rightarrow> (error + (string \<times> EntityProto) list) \<times> QueryCursor" where
  "Skip_loop 0 c = (Inr [], c)"
| "Skip_loop (Suc n) c =
     (case Next c of
        (Inl err, c') \<Rightarrow> (Inl err, c')
      | (Inr r, c') \<Rightarrow>
          (case Skip_loop n c' of
             (Inl err, c'') \<Rightarrow> (Inl err, c'')
           | (Inr rs, c'') \<Rightarrow> (Inr (case r of None \<Rightarrow> rs | Some e \<Rightarrow> e # rs), c'')))"

definition Skip :: "QueryCursor \<Rightarrow> int \<Rightarrow> (error + (string \<times> EntityProto) list) \<times> QueryCursor" where
  \<comment> \<open>\<^verbatim>\<open>for unused_i in xrange(count)\<close>\<close>
  "Skip c n = Skip_loop (nat n) c"

function Resume_loop :: "Direction \<Rightarrow> string \<Rightarrow> QueryCursor \<Rightarrow> (error + unit) \<times> QueryCursor" where
  "Resume_loop d target_position c =
     (if (if d = ASCENDING then position c \<le> target_position else position c \<ge> target_position)
         \<and> cursor c \<noteq> None
      then (case GetResult c of
              (Inl err, c') \<Rightarrow> (Inl err, c')
            | (Inr r, c') \<Rightarrow> Resume_loop d target_position (c'\<lparr>next_result := r\<rparr>))
      else (Inr (), c))"
  by pat_completeness auto
termination
  by (relation "measure (\<lambda>(d, t, c). remaining c)")
     (auto elim: GetResult_remaining)

declare Resume_loop.simps [simp del]

definition ResumeFromCompiledCursor :: "QueryCursor \<Rightarrow> CompiledCursor \<Rightarrow> (error + unit) \<times> QueryCursor" where
  "ResumeFromCompiledCursor c cc =
     (case position_list cc of
        [] \<Rightarrow> (Inl IndexError, c)
      | target_position # _ \<Rightarrow>
          (case end_compiled_cursor (qc_query c) of
             None \<Rightarrow> Resume_loop (query_direction (qc_query c)) target_position c
           | Some ecc \<Rightarrow>
               (case position_list ecc of
                  [] \<Rightarrow> (Inl IndexError, c)
                | end_key # _ \<Rightarrow>
                    if (if query_direction (qc_query c) = ASCENDING
                        then target_position \<ge> end_key else target_position \<le> end_key)
                    then (Inr (), c\<lparr>position := target_position, cursor := None\<rparr>)
                    else Resume_loop (query_direction (qc_query c)) target_position c)))"

record QueryResult =
  result_list :: "(string \<times> EntityProto) list"
  result_keys_only :: bool
  more_results :: bool
  result_compiled_cursor :: CompiledCursor

definition EncodeCompiledCursor :: "QueryCursor \<Rightarrow> CompiledCursor \<Rightarrow> CompiledCursor" where
  "EncodeCompiledCursor c cc =
     (let offset' = (case cursor c of Some dbc \<Rightarrow> str (int (db_rowcount dbc)) | None \<Rightarrow> str 0);
          start_key = position c @ ''!'' @ zfill 10 offset'
      in cc\<lparr>position_list := position_list cc @ [start_key]\<rparr>)"

function populate_loop :: "int \<Rightarrow> QueryCursor \<Rightarrow> (string \<times> EntityProto) list \<Rightarrow> (error + (string \<times> EntityProto) list) \<times> QueryCursor" where
  "populate_loop n c rs =
     (if int (length rs) < n
      then (if qc_limit c \<noteq> None \<and> int (card (seen c)) \<ge> the (qc_limit c) then (Inr rs, c)
            else (case Next c of
                    (Inl err, c') \<Rightarrow> (Inl err, c')
                  | (Inr None, c') \<Rightarrow> (Inr rs, c')
                  | (Inr (Some entity), c') \<Rightarrow> populate_loop n c' (rs @ [entity])))
      else (Inr rs, c))"
  by pat_completeness auto
termination
  by (relation "measure (\<lambda>(n, c, rs). nat (n - int (length rs)))") auto

declare populate_loop.simps [simp del]

definition PopulateQueryResult :: "QueryCursor \<Rightarrow> int \<Rightarrow> QueryResult \<Rightarrow> (error + QueryResult) \<times> QueryCursor" where
  "PopulateQueryResult c n result =
     (let n' = (if n > MAXIMUM_RESULTS then MAXIMUM_RESULTS else n)
      in case populate_loop n' c (result_list result) of
           (Inl err, c') \<Rightarrow> (Inl err, c')
         | (Inr rs, c') \<Rightarrow>
             (Inr (result\<lparr>result_keys_only := keys_only (qc_query c),
                          result_list := rs,
                          more_results := (int (length rs) = n'),
                          result_compiled_cursor :=
                            EncodeCompiledCursor c' (result_compiled_cursor result)\<rparr>),
              c'))"

definition empty_QueryResult :: QueryResult where
  "empty_QueryResult =
     \<lparr>result_list = [], result_keys_only = False, more_results = False,
      result_compiled_cursor = \<lparr>position_list = []\<rparr>\<rparr>"

subsection \<open>The life of a cursor\<close>

text \<open>
  After its construction a cursor is driven by \<^verbatim>\<open>ResumeFromCompiledCursor\<close> and
  \<^verbatim>\<open>Skip\<close> (from \<^verbatim>\<open>__GetQueryCursor\<close>) and by \<^verbatim>\<open>PopulateQueryResult\<close> (from
  \<^verbatim>\<open>_Dynamic_RunQuery\<close> and every \<^verbatim>\<open>_Dynamic_Next\<close>, each with a new response). A call
  that raises leaves the cursor as it was when the exception came and returns nothing.
  \<open>lifetime\<close> runs a sequence of such calls and lists the results \<^verbatim>\<open>_Next\<close> produced
  for them: the results skipped and the results returned in batches.
\<close>

datatype cursor_op = Op_Resume CompiledCursor | Op_Skip int | Op_Populate int

fun run_op :: "QueryCursor \<Rightarrow> cursor_op \<Rightarrow> (string \<times> EntityProto) list \<times> QueryCursor" where
  "run_op c (Op_Resume cc) = ([], snd (ResumeFromCompiledCursor c cc))"
| "run_op c (Op_Skip n) =
     (case Skip c n of (Inl err, c') \<Rightarrow> ([], c') | (Inr rs, c') \<Rightarrow> (rs, c'))"
| "run_op c (Op_Populate n) =
     (case PopulateQueryResult c n empty_QueryResult of
        (Inl err, c') \<Rightarrow> ([], c')
      | (Inr result, c') \<Rightarrow> (result_list result, c'))"

fun lifetime :: "QueryCursor \<Rightarrow> cursor_op list \<Rightarrow> (string \<times> EntityProto) list" where
  "lifetime c [] = []"
| "lifetime c (x # ops) = (let (rs, c') = run_op c x in rs @ lifetime c' ops)"

definition delivered :: "error + (string \<times> EntityProto) option \<Rightarrow> string set" where
  \<comment> \<open>the path of the result of a call of \<^verbatim>\<open>_Next\<close>, if it has one\<close>
  "delivered r = (case r of Inr (Some e) \<Rightarrow> {fst e} | _ \<Rightarrow> {})"

subsection \<open>Planning a query\<close>

text \<open>
  The four strategies write the text of a \<^verbatim>\<open>SELECT\<close> statement, which MySQL evaluates.
  Neither the text nor its evaluation is modelled: a planner gives the strategies in
  the order of \<^verbatim>\<open>_QUERY_STRATEGIES\<close>, each returning a statement, \<open>None\<close> or an
  error, and \<open>execute\<close>, the rows the database returns for a statement that carries no
  \<^verbatim>\<open>LIMIT\<close> clause. \<open>Normalize\<close> is the SDK's \<^verbatim>\<open>datastore_index.Normalize\<close>. The
  \<^verbatim>\<open>LIMIT\<close> clause that \<^verbatim>\<open>__GetQueryCursor\<close> appends is applied to those rows as
  MySQL defines it: \<^verbatim>\<open>LIMIT n\<close> keeps the first \<open>n\<close> rows, \<^verbatim>\<open>LIMIT o, n\<close> skips \<open>o\<close>
  rows and keeps the next \<open>n\<close>, and a negative number is a syntax error.
\<close>

type_synonym filter_info = "(string \<times> (Operator \<times> string) list) list"
type_synonym order_info = "(string \<times> Direction) list"

record 'sql planner =
  Normalize :: "Filter list \<Rightarrow> Order list \<Rightarrow> Filter list \<times> Order list"
  strategies :: "(Stub \<Rightarrow> Query \<Rightarrow> filter_info \<Rightarrow> order_info \<Rightarrow> (error + 'sql option) \<times> Stub) list"
  execute :: "Stub \<Rightarrow> 'sql \<Rightarrow> row list"

definition ReferencePropertyToReference :: "ReferenceValue \<Rightarrow> Reference" where
  "ReferencePropertyToReference refprop =
     \<lparr>app = ref_app refprop,
      name_space = (case ref_name_space refprop of None \<Rightarrow> [] | Some ns \<Rightarrow> ns),
      path = pathelement_list refprop\<rparr>"

definition referencevalue_of :: "PropertyValue \<Rightarrow> ReferenceValue" where
  "referencevalue_of v =
     (case referencevalue v of
        None \<Rightarrow> \<lparr>ref_app = [], ref_name_space = None, pathelement_list = []\<rparr>
      | Some r \<Rightarrow> r)"

fun setdefault_append :: "('k \<times> 'v list) list \<Rightarrow> 'k \<Rightarrow> 'v \<Rightarrow> ('k \<times> 'v list) list" where
  \<comment> \<open>\<^verbatim>\<open>d.setdefault(k, []).append(v)\<close>, the dictionary kept in the order its keys came\<close>
  "setdefault_append [] k v = [(k, [v])]"
| "setdefault_append ((k', vs) # m) k v =
     (if k' = k then (k', vs @ [v]) # m else (k', vs) # setdefault_append m k v)"

fun GenerateFilterInfo_loop :: "ext \<Rightarrow> Query \<Rightarrow> filter_info \<Rightarrow> Filter list \<Rightarrow> error + filter_info" where
  "GenerateFilterInfo_loop x query info [] = Inr info"
| "GenerateFilterInfo_loop x query info (filt # filters) =
     (case filter_property filt of
        [prop] \<Rightarrow>
          if prop_name prop = ''__key__''
          then (let v = ReferencePropertyToReference (referencevalue_of (prop_value prop))
                in if app v \<noteq> query_app query then Inl AssertionError
                   else if name_space v \<noteq> query_name_space query then Inl AssertionError
                   else (case EncodeIndexPB x (PB_Path (path v)) of
                           Inl err \<Rightarrow> Inl err
                         | Inr encoded \<Rightarrow>
                             GenerateFilterInfo_loop x query
                               (setdefault_append info (prop_name prop) (filter_op filt, encoded))
                               filters))
          else (case EncodeIndexPB x (PB_PropertyValue (prop_value prop)) of
                  Inl err \<Rightarrow> Inl err
                | Inr encoded \<Rightarrow>
                    GenerateFilterInfo_loop x query
                      (setdefault_append info (prop_name prop) (filter_op filt, encoded))
                      filters)
      | _ \<Rightarrow> Inl AssertionError)"

definition GenerateFilterInfo :: "ext \<Rightarrow> Filter list \<Rightarrow> Query \<Rightarrow> error + filter_info" where
  "GenerateFilterInfo x filters query = GenerateFilterInfo_loop x query [] filters"

definition GenerateOrderInfo :: "Order list \<Rightarrow> order_info" where
  "GenerateOrderInfo orders =
     (let orders' = map (\<lambda>ord. (order_property ord, direction ord)) orders
      in if orders' \<noteq> [] \<and> last orders' = (''__key__'', ASCENDING) then butlast orders'
         else orders')"

fun try_strategies :: "(Stub \<Rightarrow> Query \<Rightarrow> filter_info \<Rightarrow> order_info \<Rightarrow> (error + 'sql option) \<times> Stub) list \<Rightarrow> Stub \<Rightarrow> Query \<Rightarrow> filter_info \<Rightarrow> order_info \<Rightarrow> (error + 'sql) \<times> Stub" where
  "try_strategies [] st query info orders =
     (Inl (ApplicationError BAD_REQUEST ''No strategy found to satisfy query.''), st)"
| "try_strategies (strategy # rest) st query info orders =
     (case strategy st query info orders of
        (Inl err, st') \<Rightarrow> (Inl err, st')
      | (Inr (Some result), st') \<Rightarrow> (Inr result, st')
      | (Inr None, st') \<Rightarrow> try_strategies rest st' query info orders)"

fun split_on :: "char \<Rightarrow> string \<Rightarrow> string list" where
  \<comment> \<open>\<^verbatim>\<open>s.split(c)\<close>\<close>
  "split_on c [] = [[]]"
| "split_on c (x # xs) =
     (if x = c then [] # split_on c xs
      else (case split_on c xs of p # ps \<Rightarrow> (x # p) # ps | [] \<Rightarrow> [[x]]))"

definition is_space :: "char \<Rightarrow> bool" where
  "is_space c = (c \<in> {CHR '' '', CHR 0x09, CHR 0x0A, CHR 0x0B, CHR 0x0C, CHR 0x0D})"

definition is_digit :: "char \<Rightarrow> bool" where
  "is_digit c = (CHR ''0'' \<le> c \<and> c \<le> CHR ''9'')"

definition strip :: "string \<Rightarrow> string" where
  "strip s = rev (dropWhile is_space (rev (dropWhile is_space s)))"

definition digits_value :: "string \<Rightarrow> nat" where
  "digits_value ds = foldl (\<lambda>a c. 10 * a + (of_char c - 48)) 0 ds"

definition int_of_str :: "string \<Rightarrow> error + int" where
  \<comment> \<open>\<^verbatim>\<open>int(s)\<close>: blanks around, a sign, decimal digits\<close>
  "int_of_str s =
     (let t = strip s;
          (sgn', ds) = (case t of
                          c # r \<Rightarrow> if c = CHR ''-'' then (- 1, r)
                                   else if c = CHR ''+'' then (1, r) else (1, t)
                        | [] \<Rightarrow> (1, []))
      in if ds \<noteq> [] \<and> (\<forall>c \<in> set ds. is_digit c) then Inr (sgn' * int (digits_value ds))
         else Inl ValueError)"

definition has_position :: "Query \<Rightarrow> bool" where
  \<comment> \<open>\<^verbatim>\<open>query.has_compiled_cursor() and query.compiled_cursor().position_size()\<close>\<close>
  "has_position query =
     (case compiled_cursor query of None \<Rightarrow> False | Some cc \<Rightarrow> position_list cc \<noteq> [])"

definition apply_compiled_cursor :: "Query \<Rightarrow> error + Query" where
  "apply_compiled_cursor query =
     (if has_position query
      then (case split_on CHR ''!'' (hd (position_list (the (compiled_cursor query)))) of
              [start_key, n] \<Rightarrow>
                (case int_of_str n of
                   Inl err \<Rightarrow> Inl err
                 | Inr new_offset \<Rightarrow>
                     Inr (query\<lparr>query_offset := Some new_offset,
                                query_limit := Some (limit_of query + new_offset)\<rparr>))
            | _ \<Rightarrow> Inl ValueError)
      else Inr query)"

datatype limit_clause = NoLimit | Limit int | LimitOffset int int

definition add_limit :: "Query \<Rightarrow> limit_clause \<times> Query" where
  "add_limit query =
     (if query_limit query \<noteq> None \<and> query_offset query \<noteq> None
      then (LimitOffset (offset_of query) (limit_of query), query\<lparr>query_offset := Some 0\<rparr>)
      else if query_limit query \<noteq> None \<and> query_offset query = None
        then (Limit (limit_of query), query)
      else (NoLimit, query))"

definition ExecuteSQL :: "'sql planner \<Rightarrow> Stub \<Rightarrow> 'sql \<Rightarrow> limit_clause \<Rightarrow> error + db_cursor" where
  "ExecuteSQL pl st sql_stmt lc =
     (case lc of
        NoLimit \<Rightarrow>
          Inr \<lparr>db_rows = execute pl st sql_stmt, db_rowcount = length (execute pl st sql_stmt)\<rparr>
      | Limit n \<Rightarrow>
          if n < 0 then Inl ProgrammingError
          else (let rs = take (nat n) (execute pl st sql_stmt)
                in Inr \<lparr>db_rows = rs, db_rowcount = length rs\<rparr>)
      | LimitOffset off n \<Rightarrow>
          if off < 0 \<or> n < 0 then Inl ProgrammingError
          else (let rs = take (nat n) (drop (nat off) (execute pl st sql_stmt))
                in Inr \<lparr>db_rows = rs, db_rowcount = length rs\<rparr>))"

definition history_clone :: "Query \<Rightarrow> Query" where
  "history_clone query =
     query\<lparr>query_hint := None, query_limit := None, query_count := None, query_offset := None\<rparr>"

text \<open>
  The second half of \<^verbatim>\<open>__GetQueryCursor\<close>, from the statement a strategy returned to
  the cursor. The method changes limit and offset of the query it was given; the
  model returns the query as the method leaves it.
\<close>

definition open_cursor :: "'sql planner \<Rightarrow> Stub \<Rightarrow> Query \<Rightarrow> 'sql \<Rightarrow> (error + QueryCursor \<times> Query) \<times> Stub" where
  "open_cursor pl st query sql_stmt =
     (case apply_compiled_cursor query of
        Inl err \<Rightarrow> (Inl err, st)
      | Inr query1 \<Rightarrow>
          (let (lc, query2) = add_limit query1
           in case ExecuteSQL pl st sql_stmt lc of
                Inl err \<Rightarrow> (Inl err, st)
              | Inr dbc \<Rightarrow>
                  (case (if has_position query2
                         then ResumeFromCompiledCursor (QueryCursor_init query2 dbc)
                                (the (compiled_cursor query2))
                         else (Inr (), QueryCursor_init query2 dbc)) of
                     (Inl err, c1) \<Rightarrow> (Inl err, st)
                   | (Inr _, c1) \<Rightarrow>
                       (case (if query_offset query2 \<noteq> None then Skip c1 (offset_of query2)
                              else (Inr [], c1)) of
                          (Inl err, c2) \<Rightarrow> (Inl err, st)
                        | (Inr _, c2) \<Rightarrow>
                            (Inr (c2, query2),
                             st\<lparr>query_history := (query_history st)
                                   (history_clone query2 :=
                                      query_history st (history_clone query2) + 1)\<rparr>)))))"

definition num_components :: "Query \<Rightarrow> int" where
  "num_components query =
     int (length (filter_list query)) + int (length (order_list query)) +
     (if query_ancestor query \<noteq> None then 1 else 0)"

text \<open>
  \<^verbatim>\<open>__GetQueryCursor\<close> opens with two checks. \<open>plan_query\<close> is the method from the
  check of the application id on: normalisation, the strategies in their order, and
  the cursor.
\<close>

definition plan_query :: "ext \<Rightarrow> 'sql planner \<Rightarrow> Stub \<Rightarrow> Query \<Rightarrow> (error + QueryCursor \<times> Query) \<times> Stub" where
  "plan_query x pl st query =
     (case ValidateAppId st (query_app query) of
        Inl err \<Rightarrow> (Inl err, st)
      | Inr _ \<Rightarrow>
          (let (filters, orders) = Normalize pl (filter_list query) (order_list query)
           in case GenerateFilterInfo x filters query of
                Inl err \<Rightarrow> (Inl err, st)
              | Inr info \<Rightarrow>
                  (case try_strategies (strategies pl) st query info
                          (GenerateOrderInfo orders) of
                     (Inl err, st1) \<Rightarrow> (Inl err, st1)
                   | (Inr sql_stmt, st1) \<Rightarrow> open_cursor pl st1 query sql_stmt)))"

definition GetQueryCursor :: "ext \<Rightarrow> 'sql planner \<Rightarrow> Stub \<Rightarrow> Query \<Rightarrow> (error + QueryCursor \<times> Query) \<times> Stub" where
  "GetQueryCursor x pl st query =
     (if query_transaction query \<noteq> None \<and> query_ancestor query = None
      then (Inl (ApplicationError BAD_REQUEST
                   ''Only ancestor queries are allowed inside transactions.''), st)
      else if num_components query > MAX_QUERY_COMPONENTS
      then (Inl (ApplicationError BAD_REQUEST
                   ''query is too large. may not have more than %s filters + sort orders ancestor total''), st)
      else plan_query x pl st query)"

subsection \<open>RunQuery, Next and Count\<close>

text \<open>The result of \<open>RunQuery\<close> is the cursor id and the query result of the response.\<close>

definition Dynamic_RunQuery :: "ext \<Rightarrow> 'sql planner \<Rightarrow> Stub \<Rightarrow> Query \<Rightarrow> (error + int \<times> QueryResult) \<times> Stub" where
  "Dynamic_RunQuery x pl st query =
     (case GetConnection st (query_transaction query) of
        Inl err \<Rightarrow> (Inl err, st)
      | Inr _ \<Rightarrow>
          (case GetQueryCursor x pl st query of
             (Inl err, st1) \<Rightarrow> (Inl err, st1)
           | (Inr (c, query'), st1) \<Rightarrow>
               (let cursor_id = next_cursor_id st1;
                    st2 = st1\<lparr>next_cursor_id := cursor_id + 1\<rparr>;
                    n = (if query_count query' \<noteq> None then the (query_count query')
                         else if query_limit query' \<noteq> None then limit_of query'
                         else BATCH_SIZE)
                in case PopulateQueryResult c n empty_QueryResult of
                     (Inl err, c') \<Rightarrow> (Inl err, st2)
                   | (Inr query_result, c') \<Rightarrow>
                       (Inr (cursor_id, query_result),
                        st2\<lparr>cursors := (cursors st2)((query_app query', cursor_id) \<mapsto> c')\<rparr>))))"

record NextRequest =
  next_cursor :: "string \<times> int"
  next_count :: "int option"

definition Dynamic_Next :: "Stub \<Rightarrow> NextRequest \<Rightarrow> (error + QueryResult) \<times> Stub" where
  "Dynamic_Next st next_request =
     (case ValidateAppId st (fst (next_cursor next_request)) of
        Inl err \<Rightarrow> (Inl err, st)
      | Inr _ \<Rightarrow>
          (case cursors st (next_cursor next_request) of
             None \<Rightarrow> (Inl (ApplicationError BAD_REQUEST ''Cursor %d not found''), st)
           | Some c \<Rightarrow>
               if qc_app c \<noteq> fst (next_cursor next_request) then (Inl AssertionError, st)
               else (let n = (case next_count next_request of None \<Rightarrow> BATCH_SIZE | Some k \<Rightarrow> k)
                     in case PopulateQueryResult c n empty_QueryResult of
                          (r, c') \<Rightarrow> (r, st\<lparr>cursors := (cursors st)(next_cursor next_request \<mapsto> c')\<rparr>))))"

definition Dynamic_Count :: "ext \<Rightarrow> 'sql planner \<Rightarrow> Stub \<Rightarrow> Query \<Rightarrow> (error + int) \<times> Stub" where
  "Dynamic_Count x pl st query =
     (let query1 = query\<lparr>query_limit :=
                      Some (if query_limit query \<noteq> None then min (limit_of query) MAXIMUM_RESULTS
                            else MAXIMUM_RESULTS)\<rparr>
      in case GetConnection st (query_transaction query1) of
           Inl err \<Rightarrow> (Inl err, st)
         | Inr _ \<Rightarrow>
             (case GetQueryCursor x pl st query1 of
                (Inl err, st1) \<Rightarrow> (Inl err, st1)
              | (Inr (c, query'), st1) \<Rightarrow>
                  (case Count c of
                     (Inl err, c') \<Rightarrow> (Inl err, st1)
                   | (Inr n, c') \<Rightarrow> (Inr n, st1))))"

subsection \<open>A new stub\<close>

text \<open>
  The constructor on a database without tables: \<^verbatim>\<open>__Init\<close> finds no namespace and
  no index.
\<close>

definition DatastoreMySQLStub :: "string \<Rightarrow> bool \<Rightarrow> Stub" where
  "DatastoreMySQLStub a t =
     \<lparr>app_id = a, trusted = t, id_map = Map.empty, namespaces = {}, indexes = Map.empty,
      current_transaction = None, next_tx_handle = 1, transactions = Map.empty,
      inside_tx = False, tx_writes = Map.empty, tx_deletes = {}, next_cursor_id = 1,
      cursors = Map.empty, query_history = (\<lambda>q. 0), IdSeq = Map.empty,
      Entities = (\<lambda>prefix. []), EntitiesByProperty = (\<lambda>prefix. [])\<rparr>"

subsection \<open>Example states\<close>

definition example_index :: "State \<Rightarrow> CompositeIndex" where
  "example_index s =
     \<lparr>index_app_id = ''app'', index_id = 1,
      index_definition = \<lparr>entity_type = ''Book'', ancestor_flag = False,
                           index_properties = [(''title'', ASCENDING)]\<rparr>,
      index_state = s\<rparr>"

definition example_index_stub :: "State \<Rightarrow> Stub" where
  "example_index_stub s =
     (DatastoreMySQLStub ''app'' False)
       \<lparr>indexes := [''app'' \<mapsto> [''Book'' \<mapsto> [example_index s]]]\<rparr>"

definition example_ext :: ext where
  "example_ext = \<lparr>md5_digest = (\<lambda>s. take 16 s), md5_hexdigest = (\<lambda>s. s),
                   sortable_encode = (\<lambda>v. [])\<rparr>"

definition example_planner :: "row list \<Rightarrow> unit planner" where
  \<comment> \<open>one strategy that always applies, and a database that answers with the given rows\<close>
  "example_planner rs =
     \<lparr>Normalize = (\<lambda>filters orders. (filters, orders)),
      strategies = [\<lambda>st query info orders. (Inr (Some ()), st)],
      execute = (\<lambda>st stmt. rs)\<rparr>"

definition example_key :: "string \<Rightarrow> string \<Rightarrow> int \<Rightarrow> Reference" where
  "example_key ns k i =
     \<lparr>app = ''app'', name_space = ns,
      path = [\<lparr>elem_type = k, elem_id = Some i, elem_name = None\<rparr>]\<rparr>"

definition example_query :: Query where
  "example_query =
     \<lparr>query_app = ''app'', query_name_space = [], query_kind = Some ''Book'',
      query_ancestor = None, filter_list = [], order_list = [], query_hint = None,
      query_limit = None, query_offset = None, query_count = None,
      compiled_cursor = None, end_compiled_cursor = None, query_transaction = None,
      keys_only = False\<rparr>"

definition example_transaction :: Transaction where
  "example_transaction = \<lparr>tx_app = ''app'', handle = 1\<rparr>"

definition example_filter :: Filter where
  "example_filter =
     \<lparr>filter_op = EQUAL,
      filter_property = [\<lparr>prop_name = ''title'',
                           prop_value = empty_PropertyValue\<lparr>stringvalue := Some ''x''\<rparr>,
                           multiple = False\<rparr>]\<rparr>"

definition example_alloc_stub :: Stub where
  \<comment> \<open>a new stub after the first touch of the namespace \<open>('app', '')\<close>\<close>
  "example_alloc_stub = snd (GetTablePrefix (DatastoreMySQLStub ''app'' False) (''app'', []))"

definition example_entity :: "string \<Rightarrow> int \<Rightarrow> EntityProto" where
  "example_entity k i =
     \<lparr>key = example_key [] k i,
      entity_group = Some (path (example_key [] k i)),
      property_list = [], raw_property_list = []\<rparr>"

definition example_rows :: "row list" where
  \<comment> \<open>a result set in which a join has repeated the first entity\<close>
  "example_rows =
     [(''Book:0000000001'', example_entity ''Book'' 1, [''Book:0000000001'']),
      (''Book:0000000001'', example_entity ''Book'' 1, [''Book:0000000001'']),
      (''Book:0000000002'', example_entity ''Book'' 2, [''Book:0000000002''])]"

definition book_row :: "nat \<Rightarrow> row" where
  \<comment> \<open>the row of the kind scan for the book with id \<open>i + 1\<close>\<close>
  "book_row i =
     (''Book:'' @ zfill 10 (str (int (Suc i))), example_entity ''Book'' (int (Suc i)),
      [''Book:'' @ zfill 10 (str (int (Suc i)))])"

definition book_rows :: "nat \<Rightarrow> row list" where
  "book_rows n = map book_row [0..<n]"

definition cursor_query :: Query where
  \<comment> \<open>all books, resumed from the compiled cursor a fetch of two results returned\<close>
  "cursor_query =
     example_query\<lparr>compiled_cursor := Some \<lparr>position_list = [''Book:0000000002!0000000002'']\<rparr>\<rparr>"

definition tx_stub :: Stub where
  "tx_stub = snd (Dynamic_BeginTransaction (DatastoreMySQLStub ''app'' False) ''app'')"

definition example_put :: PutRequest where
  "example_put = \<lparr>put_transaction = Some example_transaction,
                   entity_list = [example_entity ''Book'' 1]\<rparr>"

definition example_delete :: DeleteRequest where
  "example_delete = \<lparr>delete_transaction = Some example_transaction,
                      delete_key_list = [example_key [] ''Book'' 1]\<rparr>"










section \<open>Properties\<close>

subsection \<open>Composite-index lifecycle\<close>

lemma find_set_state_first:
  "find (\<lambda>x. d = index_definition x) xs = Some y \<Longrightarrow>
   find (\<lambda>x. d = index_definition x) (set_state_first d s xs) = Some (y\<lparr>index_state := s\<rparr>)"
  by (induction xs) (auto split: if_splits)

lemma FindIndex_set_state:
  assumes "FindIndex st index = Some my_index"
  shows "FindIndex (set_state st index s) index = Some (my_index\<lparr>index_state := s\<rparr>)"
proof -
  let ?a = "index_app_id index" and ?k = "entity_type (index_definition index)"
  from assms have nonempty: "app_indexes st ?a ?k \<noteq> []"
    by (auto simp: FindIndex_def)
  then obtain m xs where m: "indexes st ?a = Some m" and xs: "m ?k = Some xs"
    by (auto simp: app_indexes_def split: option.splits)
  with assms have "find (\<lambda>x. index_definition index = index_definition x) xs = Some my_index"
    by (simp add: FindIndex_def app_indexes_def)
  then show ?thesis
    using m xs by (simp add: FindIndex_def app_indexes_def set_state_def find_set_state_first)
qed

text \<open>
  C6. For a request that passes the application check and names a stored index,
  \<open>UpdateIndex\<close> succeeds exactly when the requested state is the current state or a
  legal transition: WRITE_ONLY to READ_WRITE, DELETED or ERROR; READ_WRITE to DELETED;
  ERROR to DELETED; DELETED to ERROR. When it succeeds the stored index carries the
  requested state; every other request fails with BAD_REQUEST and leaves the stub, and
  so the stored state, as it was.
\<close>

theorem UpdateIndex_lifecycle:
  assumes "ValidateAppId st (index_app_id index) = Inr ()"
    and "FindIndex st index = Some my_index"
  shows "((fst (Dynamic_UpdateIndex st index) = Inr ()) =
            (index_state index = index_state my_index \<or>
             (index_state my_index, index_state index) \<in>
               {(WRITE_ONLY, READ_WRITE), (WRITE_ONLY, DELETED), (WRITE_ONLY, ERROR),
                (READ_WRITE, DELETED), (ERROR, DELETED), (DELETED, ERROR)})) \<and>
         (fst (Dynamic_UpdateIndex st index) = Inr () \<longrightarrow>
            FindIndex (snd (Dynamic_UpdateIndex st index)) index =
              Some (my_index\<lparr>index_state := index_state index\<rparr>)) \<and>
         (fst (Dynamic_UpdateIndex st index) \<noteq> Inr () \<longrightarrow>
            (\<exists>msg. fst (Dynamic_UpdateIndex st index) = Inl (ApplicationError BAD_REQUEST msg)) \<and>
            snd (Dynamic_UpdateIndex st index) = st)"
proof (intro conjI impI)
  show "(fst (Dynamic_UpdateIndex st index) = Inr ()) =
           (index_state index = index_state my_index \<or>
            (index_state my_index, index_state index) \<in>
              {(WRITE_ONLY, READ_WRITE), (WRITE_ONLY, DELETED), (WRITE_ONLY, ERROR),
               (READ_WRITE, DELETED), (ERROR, DELETED), (DELETED, ERROR)})"
    using assms
    by (cases "index_state my_index"; cases "index_state index")
       (simp_all add: Dynamic_UpdateIndex_def INDEX_STATE_TRANSITIONS_def)
next
  assume ok: "fst (Dynamic_UpdateIndex st index) = Inr ()"
  with assms have "\<not> (index_state index \<noteq> index_state my_index \<and>
      index_state index \<notin> INDEX_STATE_TRANSITIONS (index_state my_index))"
    by (auto simp: Dynamic_UpdateIndex_def split: if_splits)
  with assms show "FindIndex (snd (Dynamic_UpdateIndex st index)) index =
      Some (my_index\<lparr>index_state := index_state index\<rparr>)"
    by (auto simp: Dynamic_UpdateIndex_def FindIndex_set_state [OF assms(2)])
next
  assume "fst (Dynamic_UpdateIndex st index) \<noteq> Inr ()"
  with assms show "\<exists>msg. fst (Dynamic_UpdateIndex st index) = Inl (ApplicationError BAD_REQUEST msg)"
    by (simp add: Dynamic_UpdateIndex_def split: if_splits)
next
  assume "fst (Dynamic_UpdateIndex st index) \<noteq> Inr ()"
  with assms show "snd (Dynamic_UpdateIndex st index) = st"
    by (simp add: Dynamic_UpdateIndex_def split: if_splits)
qed

theorem UpdateIndex_lifecycle_witness:
  "fst (Dynamic_UpdateIndex (example_index_stub WRITE_ONLY) (example_index READ_WRITE)) = Inr () \<and>
   FindIndex (snd (Dynamic_UpdateIndex (example_index_stub WRITE_ONLY) (example_index READ_WRITE)))
     (example_index READ_WRITE) = Some (example_index READ_WRITE) \<and>
   fst (Dynamic_UpdateIndex (example_index_stub DELETED) (example_index READ_WRITE)) =
     Inl (ApplicationError BAD_REQUEST ''Cannot move index state from %s to %s'') \<and>
   snd (Dynamic_UpdateIndex (example_index_stub DELETED) (example_index READ_WRITE)) =
     example_index_stub DELETED"
proof -
  have v: "ValidateAppId (example_index_stub s) (index_app_id (example_index READ_WRITE)) = Inr ()" for s
    by (simp add: ValidateAppId_def example_index_stub_def example_index_def DatastoreMySQLStub_def)
  have f: "FindIndex (example_index_stub s) (example_index READ_WRITE) = Some (example_index s)" for s
    by (simp add: FindIndex_def app_indexes_def example_index_stub_def example_index_def
          DatastoreMySQLStub_def)
  have s: "index_state (example_index s) = s" for s
    by (simp add: example_index_def)
  have u: "(example_index s)\<lparr>index_state := s'\<rparr> = example_index s'" for s s'
    by (simp add: example_index_def)
  have ok: "fst (Dynamic_UpdateIndex (example_index_stub WRITE_ONLY) (example_index READ_WRITE)) = Inr ()"
    using UpdateIndex_lifecycle [OF v f, of WRITE_ONLY] by (simp add: s)
  have bad: "fst (Dynamic_UpdateIndex (example_index_stub DELETED) (example_index READ_WRITE)) \<noteq> Inr ()"
    using UpdateIndex_lifecycle [OF v f, of DELETED] by (simp add: s)
  have msg: "fst (Dynamic_UpdateIndex (example_index_stub DELETED) (example_index READ_WRITE)) =
      Inl (ApplicationError BAD_REQUEST ''Cannot move index state from %s to %s'')"
    by (simp add: Dynamic_UpdateIndex_def v f s INDEX_STATE_TRANSITIONS_def)
  show ?thesis
    using UpdateIndex_lifecycle [OF v f, of WRITE_ONLY] UpdateIndex_lifecycle [OF v f, of DELETED]
      ok bad msg
    by (simp add: s u)
qed

subsection \<open>The checks that open query planning\<close>

lemma plan_example_query:
  assumes "query_app q = ''app''" and "compiled_cursor q = None" and "query_limit q = None"
    and "query_offset q = None"
    and "GenerateFilterInfo example_ext (filter_list q) q = Inr info"
  shows "fst (plan_query example_ext (example_planner rs) (DatastoreMySQLStub ''app'' False) q) =
           Inr (QueryCursor_init q \<lparr>db_rows = rs, db_rowcount = length rs\<rparr>, q)"
  using assms
  by (simp add: plan_query_def example_planner_def ValidateAppId_def DatastoreMySQLStub_def
        open_cursor_def apply_compiled_cursor_def has_position_def add_limit_def
        ExecuteSQL_def)

text \<open>
  C8. A query that carries a transaction and has no ancestor fails with BAD_REQUEST at
  the first statement of planning: whatever the strategies and the database are, the
  result is that error and the stub is unchanged. A query with an ancestor passes this
  check, in a transaction or not: what planning returns for it is decided by the size
  check and the steps after it.
\<close>

theorem transactional_query_must_have_ancestor:
  "(query_transaction q \<noteq> None \<and> query_ancestor q = None \<longrightarrow>
      GetQueryCursor x pl st q =
        (Inl (ApplicationError BAD_REQUEST
                ''Only ancestor queries are allowed inside transactions.''), st)) \<and>
   (query_ancestor q \<noteq> None \<longrightarrow>
      GetQueryCursor x pl st q =
        (if num_components q > MAX_QUERY_COMPONENTS
         then (Inl (ApplicationError BAD_REQUEST
                      ''query is too large. may not have more than %s filters + sort orders ancestor total''), st)
         else plan_query x pl st q))"
  by (simp add: GetQueryCursor_def)

theorem transactional_query_must_have_ancestor_witness:
  "GetQueryCursor example_ext (example_planner []) (DatastoreMySQLStub ''app'' False)
     (example_query\<lparr>query_transaction := Some example_transaction\<rparr>) =
     (Inl (ApplicationError BAD_REQUEST
             ''Only ancestor queries are allowed inside transactions.''),
      DatastoreMySQLStub ''app'' False) \<and>
   (\<exists>c. fst (GetQueryCursor example_ext (example_planner []) (DatastoreMySQLStub ''app'' False)
                (example_query\<lparr>query_transaction := Some example_transaction,
                               query_ancestor := Some (example_key [] ''Author'' 1)\<rparr>)) = Inr c)"
proof -
  let ?q1 = "example_query\<lparr>query_transaction := Some example_transaction\<rparr>"
  let ?q2 = "example_query\<lparr>query_transaction := Some example_transaction,
                            query_ancestor := Some (example_key [] ''Author'' 1)\<rparr>"
  have h1: "query_transaction ?q1 \<noteq> None \<and> query_ancestor ?q1 = None"
    by (simp add: example_query_def)
  have h2: "query_ancestor ?q2 \<noteq> None"
    by simp
  have n: "\<not> num_components ?q2 > MAX_QUERY_COMPONENTS"
    by (simp add: num_components_def MAX_QUERY_COMPONENTS_def example_query_def)
  have p: "fst (plan_query example_ext (example_planner []) (DatastoreMySQLStub ''app'' False) ?q2) =
             Inr (QueryCursor_init ?q2 \<lparr>db_rows = [], db_rowcount = length ([] :: row list)\<rparr>, ?q2)"
    by (rule plan_example_query) (simp_all add: example_query_def GenerateFilterInfo_def)
  from transactional_query_must_have_ancestor [of ?q1 example_ext "example_planner []"
      "DatastoreMySQLStub ''app'' False"] h1
  have a: "GetQueryCursor example_ext (example_planner []) (DatastoreMySQLStub ''app'' False) ?q1 =
     (Inl (ApplicationError BAD_REQUEST
             ''Only ancestor queries are allowed inside transactions.''),
      DatastoreMySQLStub ''app'' False)"
    by blast
  from transactional_query_must_have_ancestor [of ?q2 example_ext "example_planner []"
      "DatastoreMySQLStub ''app'' False"] h2 n
  have "GetQueryCursor example_ext (example_planner []) (DatastoreMySQLStub ''app'' False) ?q2 =
      plan_query example_ext (example_planner []) (DatastoreMySQLStub ''app'' False) ?q2"
    by simp
  with p have b: "\<exists>c. fst (GetQueryCursor example_ext (example_planner [])
      (DatastoreMySQLStub ''app'' False) ?q2) = Inr c"
    by simp
  from a b show ?thesis by blast
qed

text \<open>
  C9. A query whose filters, orders and ancestor (counted as one) number more than 63
  fails with BAD_REQUEST. A query with 63 or fewer passes the size check: unless it is
  a query in a transaction without an ancestor, which the first check rejects, what
  planning returns for it is what the steps after the two checks return.
\<close>

theorem query_size_limit:
  "(num_components q > 63 \<longrightarrow>
      (\<exists>msg. GetQueryCursor x pl st q = (Inl (ApplicationError BAD_REQUEST msg), st))) \<and>
   (num_components q \<le> 63 \<longrightarrow>
      GetQueryCursor x pl st q =
        (if query_transaction q \<noteq> None \<and> query_ancestor q = None
         then (Inl (ApplicationError BAD_REQUEST
                      ''Only ancestor queries are allowed inside transactions.''), st)
         else plan_query x pl st q))"
  by (simp add: GetQueryCursor_def MAX_QUERY_COMPONENTS_def)

theorem query_size_limit_witness:
  "(\<exists>msg. GetQueryCursor example_ext (example_planner []) (DatastoreMySQLStub ''app'' False)
            (example_query\<lparr>filter_list := replicate 64 example_filter\<rparr>) =
            (Inl (ApplicationError BAD_REQUEST msg), DatastoreMySQLStub ''app'' False)) \<and>
   (\<exists>c. fst (GetQueryCursor example_ext (example_planner []) (DatastoreMySQLStub ''app'' False)
                (example_query\<lparr>filter_list := replicate 63 example_filter\<rparr>)) = Inr c)"
proof -
  let ?q1 = "example_query\<lparr>filter_list := replicate 64 example_filter\<rparr>"
  let ?q2 = "example_query\<lparr>filter_list := replicate 63 example_filter\<rparr>"
  have h1: "num_components ?q1 > 63"
    by (simp add: num_components_def example_query_def)
  have h2: "num_components ?q2 \<le> 63"
    by (simp add: num_components_def example_query_def)
  have t: "query_transaction ?q2 = None"
    by (simp add: example_query_def)
  have g: "\<exists>info. GenerateFilterInfo_loop example_ext ?q2 acc (replicate n example_filter) = Inr info"
    for acc n
    by (induction n arbitrary: acc) (simp_all add: example_filter_def empty_PropertyValue_def)
  then obtain info where "GenerateFilterInfo example_ext (filter_list ?q2) ?q2 = Inr info"
    by (auto simp: GenerateFilterInfo_def)
  then have p: "fst (plan_query example_ext (example_planner []) (DatastoreMySQLStub ''app'' False) ?q2) =
             Inr (QueryCursor_init ?q2 \<lparr>db_rows = [], db_rowcount = length ([] :: row list)\<rparr>, ?q2)"
    by (intro plan_example_query) (simp_all add: example_query_def)
  from query_size_limit [of ?q1 example_ext "example_planner []" "DatastoreMySQLStub ''app'' False"] h1
  have a: "\<exists>msg. GetQueryCursor example_ext (example_planner []) (DatastoreMySQLStub ''app'' False) ?q1 =
            (Inl (ApplicationError BAD_REQUEST msg), DatastoreMySQLStub ''app'' False)"
    by blast
  from query_size_limit [of ?q2 example_ext "example_planner []" "DatastoreMySQLStub ''app'' False"] h2 t
  have "GetQueryCursor example_ext (example_planner []) (DatastoreMySQLStub ''app'' False) ?q2 =
      plan_query example_ext (example_planner []) (DatastoreMySQLStub ''app'' False) ?q2"
    by simp
  with p have b: "\<exists>c. fst (GetQueryCursor example_ext (example_planner [])
      (DatastoreMySQLStub ''app'' False) ?q2) = Inr c"
    by simp
  from a b show ?thesis by blast
qed

subsection \<open>The id allocator\<close>

lemma AllocateIds_step:
  assumes ok: "id_cache_ok s" and n: "0 \<le> n" and a: "AllocateIds s p n = (Inr start, s')"
  shows "id_cache_ok s'"
    and "\<exists>b. id_map s' p = Some (start + n, b)"
    and "\<And>nx b. id_map s p = Some (nx, b) \<Longrightarrow> nx \<le> start"
    and "\<And>q. q \<noteq> p \<Longrightarrow> id_map s' q = id_map s q"
proof -
  obtain nx b where c: "cached s p = (nx, b)" by (cases "cached s p")
  show "id_cache_ok s'"
  proof (cases "b \<le> n")
    case True
    with a c obtain counter where cnt: "IdSeq s p = Some counter"
      and s': "s' = s\<lparr>IdSeq := (IdSeq s)(p \<mapsto> counter + max 1000 n),
                       id_map := (id_map s)(p \<mapsto> (counter + n, max 1000 n - n))\<rparr>"
      by (auto simp: AllocateIds_def Let_def split: option.splits)
    show ?thesis using ok n unfolding id_cache_ok_def s'
      by (auto split: if_splits)
  next
    case False
    with a c have s': "s' = s\<lparr>id_map := (id_map s)(p \<mapsto> (nx + n, b - n))\<rparr>"
      by (auto simp: AllocateIds_def Let_def)
    from False c have "id_map s p = Some (nx, b)"
      using n by (auto simp: cached_def split: option.splits)
    with ok obtain counter where "IdSeq s p = Some counter" "nx + b \<le> counter"
      unfolding id_cache_ok_def by blast
    then show ?thesis using ok False unfolding id_cache_ok_def s'
      by (auto split: if_splits)
  qed
  show "\<exists>b. id_map s' p = Some (start + n, b)"
    using a c by (auto simp: AllocateIds_def Let_def split: option.splits if_splits)
  show "nx' \<le> start" if "id_map s p = Some (nx', b')" for nx' b'
  proof -
    from that c have e: "nx' = nx" "b' = b" by (simp_all add: cached_def)
    from ok that obtain counter where "IdSeq s p = Some counter" "nx' + b' \<le> counter" "0 \<le> b'"
      unfolding id_cache_ok_def by blast
    with a c e show ?thesis
      by (auto simp: AllocateIds_def Let_def split: option.splits if_splits)
  qed
  show "id_map s' q = id_map s q" if "q \<noteq> p" for q
    using a c that by (auto simp: AllocateIds_def Let_def split: option.splits if_splits)
qed


lemma allocate_all_length:
  "allocate_all s calls = (Inr starts, s') \<Longrightarrow> length starts = length calls"
  by (induction calls arbitrary: s starts)
     (auto split: prod.splits sum.splits)

lemma allocate_all_lower_bound:
  assumes "id_cache_ok s" and "\<forall>c \<in> set calls. 1 \<le> snd c"
    and "allocate_all s calls = (Inr starts, s')" and "id_map s p = Some (nx, b)"
    and "j < length calls" and "fst (calls ! j) = p"
  shows "nx \<le> starts ! j"
  using assms
proof (induction calls arbitrary: s starts nx b j)
  case Nil
  then show ?case by simp
next
  case (Cons c calls)
  obtain q n where c: "c = (q, n)" by (cases c)
  from Cons.prems(3) c obtain start s1 rest where
    a: "AllocateIds s q n = (Inr start, s1)" and r: "allocate_all s1 calls = (Inr rest, s')"
    and st: "starts = start # rest"
    by (auto split: prod.splits sum.splits)
  from Cons.prems(2) c have n: "0 \<le> n" by simp
  note step = AllocateIds_step [OF Cons.prems(1) n a]
  show ?case
  proof (cases j)
    case 0
    with Cons.prems c have "q = p" by simp
    with step(3) Cons.prems(4) have "nx \<le> start" by blast
    with 0 st show ?thesis by simp
  next
    case (Suc k)
    with Cons.prems have k: "k < length calls" "fst (calls ! k) = p" by simp_all
    from Cons.prems(2) have pos: "\<forall>c \<in> set calls. 1 \<le> snd c" by simp
    show ?thesis
    proof (cases "q = p")
      case True
      from step(2) True obtain b' where m: "id_map s1 p = Some (start + n, b')" by blast
      from Cons.IH [OF step(1) pos r m k] have "start + n \<le> rest ! k" .
      moreover from step(3) True Cons.prems(4) have "nx \<le> start" by blast
      ultimately show ?thesis using st Suc n by simp
    next
      case False
      with step(4) Cons.prems(4) have m: "id_map s1 p = Some (nx, b)" by simp
      from Cons.IH [OF step(1) pos r m k] show ?thesis using st Suc by simp
    qed
  qed
qed

lemma allocate_all_ranges:
  assumes "id_cache_ok s" and "\<forall>c \<in> set calls. 1 \<le> snd c"
    and "allocate_all s calls = (Inr starts, s')"
    and "i < j" and "j < length calls" and "fst (calls ! i) = fst (calls ! j)"
  shows "starts ! i + snd (calls ! i) \<le> starts ! j"
  using assms
proof (induction calls arbitrary: s starts i j)
  case Nil
  then show ?case by simp
next
  case (Cons c calls)
  obtain q n where c: "c = (q, n)" by (cases c)
  from Cons.prems(3) c obtain start s1 rest where
    a: "AllocateIds s q n = (Inr start, s1)" and r: "allocate_all s1 calls = (Inr rest, s')"
    and st: "starts = start # rest"
    by (auto split: prod.splits sum.splits)
  from Cons.prems(2) c have n: "0 \<le> n" by simp
  from Cons.prems(2) have pos: "\<forall>c \<in> set calls. 1 \<le> snd c" by simp
  note step = AllocateIds_step [OF Cons.prems(1) n a]
  from Cons.prems obtain k where j: "j = Suc k" by (cases j) auto
  with Cons.prems have k: "k < length calls" by simp
  show ?case
  proof (cases i)
    case 0
    with Cons.prems c j have p: "fst (calls ! k) = q" by simp
    from step(2) obtain b' where m: "id_map s1 q = Some (start + n, b')" by blast
    from allocate_all_lower_bound [OF step(1) pos r m k p]
    show ?thesis using 0 j st c by simp
  next
    case (Suc l)
    with Cons.prems j have "l < k" "fst (calls ! l) = fst (calls ! k)" by simp_all
    from Cons.IH [OF step(1) pos r this(1) k this(2)]
    show ?thesis using Suc j st by simp
  qed
qed

lemma allocate_all_ok:
  assumes "id_cache_ok s" and "\<forall>c \<in> set calls. 1 \<le> snd c"
    and "allocate_all s calls = (Inr starts, s')"
  shows "id_cache_ok s'"
  using assms
proof (induction calls arbitrary: s starts)
  case Nil
  then show ?case by simp
next
  case (Cons c calls)
  obtain q n where c: "c = (q, n)" by (cases c)
  from Cons.prems(3) c obtain start s1 rest where
    a: "AllocateIds s q n = (Inr start, s1)" and r: "allocate_all s1 calls = (Inr rest, s')"
    by (auto split: prod.splits sum.splits)
  from Cons.prems(2) c have n: "0 \<le> n" by simp
  from Cons.prems(2) have pos: "\<forall>c \<in> set calls. 1 \<le> snd c" by simp
  from Cons.IH [OF AllocateIds_step(1) [OF Cons.prems(1) n a] pos r] show ?case .
qed

lemma AllocateIds_refill:
  assumes "AllocateIds s p n = (Inr start, s')"
  shows "if snd (cached s p) \<le> n
         then IdSeq s p = Some start \<and> IdSeq s' = (IdSeq s)(p \<mapsto> start + max 1000 n)
         else IdSeq s' = IdSeq s \<and> start = fst (cached s p)"
  using assms
  by (cases "cached s p")
     (auto simp: AllocateIds_def Let_def split: option.splits if_splits)


lemma AllocateIds_succeeds:
  assumes "p \<in> dom (IdSeq s)"
  shows "\<exists>start s'. AllocateIds s p n = (Inr start, s') \<and> dom (IdSeq s') = dom (IdSeq s)"
  using assms
  by (cases "cached s p") (auto simp: AllocateIds_def Let_def)

lemma allocate_all_succeeds:
  assumes "\<forall>c \<in> set calls. fst c \<in> dom (IdSeq s)"
  shows "\<exists>starts s'. allocate_all s calls = (Inr starts, s')"
  using assms
proof (induction calls arbitrary: s)
  case Nil
  then show ?case by simp
next
  case (Cons c calls)
  obtain q n where c: "c = (q, n)" by (cases c)
  with Cons.prems have "q \<in> dom (IdSeq s)" by simp
  from AllocateIds_succeeds [OF this] obtain start s1 where
    a: "AllocateIds s q n = (Inr start, s1)" and d: "dom (IdSeq s1) = dom (IdSeq s)"
    by blast
  with Cons.prems have "\<forall>c \<in> set calls. fst c \<in> dom (IdSeq s1)" by simp
  from Cons.IH [OF this] obtain rest s' where "allocate_all s1 calls = (Inr rest, s')" by blast
  with a c show ?case by simp
qed

lemma example_alloc_stub_eq:
  "example_alloc_stub =
     (DatastoreMySQLStub ''app'' False)\<lparr>namespaces := {(''app'', [])}, IdSeq := [''app_'' \<mapsto> 1]\<rparr>"
  by (simp add: example_alloc_stub_def GetTablePrefix_def DatastoreMySQLStub_def
        ConfigureNamespace_def formatTableName_def replace_dquote_def word_char_def Let_def)

text \<open>
  C3 (amended). From a state whose cache is covered by the counters, a sequence of
  calls with counts of at least 1 for prefixes that have a counter row returns one start
  per call, and for two calls of one prefix the range of the earlier call,
  \<open>[start, start + count)\<close>, ends at or before the start of the later call: the ranges
  are contiguous, disjoint and strictly increasing in issuance order. A call adds
  \<open>max 1000 count\<close> to the counter of its prefix, and starts at the counter's old value,
  exactly when the cached remainder is less than or equal to the count; only when the
  cache holds more than the count is the call served from the cache with the counter
  untouched.
\<close>

theorem allocate_ids_ranges:
  assumes "id_cache_ok st"
    and "\<forall>c \<in> set calls. 1 \<le> snd c \<and> fst c \<in> dom (IdSeq st)"
  shows "\<exists>starts st'.
           allocate_all st calls = (Inr starts, st') \<and> length starts = length calls \<and>
           (\<forall>i j. i < j \<and> j < length calls \<and> fst (calls ! i) = fst (calls ! j) \<longrightarrow>
                  starts ! i + snd (calls ! i) \<le> starts ! j) \<and>
           (\<forall>s p n start s'. AllocateIds s p n = (Inr start, s') \<longrightarrow>
              (if snd (cached s p) \<le> n
               then IdSeq s p = Some start \<and> IdSeq s' = (IdSeq s)(p \<mapsto> start + max 1000 n)
               else IdSeq s' = IdSeq s \<and> start = fst (cached s p)))"
proof -
  from assms(2) have rows: "\<forall>c \<in> set calls. fst c \<in> dom (IdSeq st)"
    and pos: "\<forall>c \<in> set calls. 1 \<le> snd c"
    by simp_all
  from allocate_all_succeeds [OF rows] obtain starts st' where
    run: "allocate_all st calls = (Inr starts, st')"
    by blast
  have "length starts = length calls"
    using run by (rule allocate_all_length)
  moreover have "\<forall>i j. i < j \<and> j < length calls \<and> fst (calls ! i) = fst (calls ! j) \<longrightarrow>
      starts ! i + snd (calls ! i) \<le> starts ! j"
    using allocate_all_ranges [OF assms(1) pos run] by blast
  moreover have "\<forall>s p n start s'. AllocateIds s p n = (Inr start, s') \<longrightarrow>
      (if snd (cached s p) \<le> n
       then IdSeq s p = Some start \<and> IdSeq s' = (IdSeq s)(p \<mapsto> start + max 1000 n)
       else IdSeq s' = IdSeq s \<and> start = fst (cached s p))"
    using AllocateIds_refill by blast
  ultimately show ?thesis
    using run by blast
qed

theorem allocate_ids_ranges_witness:
  "id_cache_ok example_alloc_stub \<and>
   fst (allocate_all example_alloc_stub [(''app_'', 999), (''app_'', 1), (''app_'', 2000)]) =
     Inr [1, 1001, 2001]"
proof -
  let ?calls = "[(''app_'', 999), (''app_'', 1), (''app_'', 2000)] :: (string \<times> int) list"
  have ok: "id_cache_ok example_alloc_stub"
    by (simp add: id_cache_ok_def example_alloc_stub_eq DatastoreMySQLStub_def)
  have calls: "\<forall>c \<in> set ?calls. 1 \<le> snd c \<and> fst c \<in> dom (IdSeq example_alloc_stub)"
    by (simp add: example_alloc_stub_eq)
  from allocate_ids_ranges [OF ok calls] obtain starts st' where
    "allocate_all example_alloc_stub ?calls = (Inr starts, st')" and "length starts = length ?calls"
    by blast
  moreover have "fst (allocate_all example_alloc_stub ?calls) = Inr [1, 1001, 2001]"
    by (simp add: example_alloc_stub_eq AllocateIds_def cached_def DatastoreMySQLStub_def)
  ultimately show ?thesis
    using ok by simp
qed

text \<open>
  The claim as stated fails where the cache holds exactly the count asked for: after
  999 ids of a first block the cache holds one id, 1000, and a call for one id is not
  served from it. The call takes a new block from the counter and returns 1001.
\<close>

theorem allocate_ids_refill_counterexample:
  "cached (snd (AllocateIds example_alloc_stub ''app_'' 999)) ''app_'' = (1000, 1) \<and>
   IdSeq (snd (AllocateIds example_alloc_stub ''app_'' 999)) ''app_'' = Some 1001 \<and>
   fst (AllocateIds (snd (AllocateIds example_alloc_stub ''app_'' 999)) ''app_'' 1) = Inr 1001 \<and>
   IdSeq (snd (AllocateIds (snd (AllocateIds example_alloc_stub ''app_'' 999)) ''app_'' 1)) ''app_'' =
     Some 2001"
  by (simp add: example_alloc_stub_eq AllocateIds_def cached_def DatastoreMySQLStub_def)

subsection \<open>Cursors\<close>

lemma delivered_simps [simp]:
  "delivered (Inl err) = {}" "delivered (Inr None) = {}" "delivered (Inr (Some e)) = {fst e}"
  by (simp_all add: delivered_def)

lemma GetResult_seen_snd: "seen (snd (GetResult c)) = seen c"
  by (simp add: GetResult_def Let_def split: option.splits list.splits prod.splits)

lemma GetResult_seen: "GetResult c = (r, c') \<Longrightarrow> seen c' = seen c"
  using GetResult_seen_snd [of c] by simp

lemma Next_loop_done: "cursor c = None \<Longrightarrow> Next_loop c pending = (Inr None, c)"
  by (subst Next_loop.simps) simp

lemma Next_loop_found:
  "cursor c \<noteq> None \<Longrightarrow> unseen c pending \<Longrightarrow>
   Next_loop c pending = (Inr pending, c\<lparr>seen := insert (fst (the pending)) (seen c)\<rparr>)"
  by (subst Next_loop.simps) auto

lemma Next_loop_fetch:
  "cursor c \<noteq> None \<Longrightarrow> \<not> unseen c pending \<Longrightarrow>
   Next_loop c pending =
     (case GetResult c of (Inl err, c') \<Rightarrow> (Inl err, c') | (Inr r, c') \<Rightarrow> Next_loop c' r)"
  by (subst Next_loop.simps) auto

lemma Next_loop_seen:
  "Next_loop c pending = (r, c') \<Longrightarrow>
     seen c' = seen c \<union> delivered r \<and> delivered r \<inter> seen c = {}"
proof (induction c pending arbitrary: r c' rule: Next_loop.induct)
  case (1 c pending)
  show ?case
  proof (cases "cursor c = None")
    case True
    with "1.prems" show ?thesis by (auto simp: Next_loop_done)
  next
    case False
    show ?thesis
    proof (cases "unseen c pending")
      case True
      then obtain e where "pending = Some e" "fst e \<notin> seen c"
        by (auto simp: unseen_def split: option.splits)
      with "1.prems" Next_loop_found [OF False True] show ?thesis
        by auto
    next
      case u: False
      obtain g c1 where g: "GetResult c = (g, c1)" by (cases "GetResult c")
      then have s: "seen c1 = seen c" by (rule GetResult_seen)
      from Next_loop_fetch [OF False u] g "1.prems"
      have unf: "(case g of Inl err \<Rightarrow> (Inl err, c1) | Inr p \<Rightarrow> Next_loop c1 p) = (r, c')"
        by simp
      show ?thesis
      proof (cases g)
        case (Inl err)
        with unf have "r = Inl err" "c' = c1" by simp_all
        with s show ?thesis by simp
      next
        case (Inr p)
        with unf have "Next_loop c1 p = (r, c')" by simp
        from "1.IH" [OF False u g [symmetric] Inr this] s show ?thesis by simp
      qed
    qed
  qed
qed


lemma Next_seen:
  "Next c = (r, c') \<Longrightarrow> seen c' = seen c \<union> delivered r \<and> delivered r \<inter> seen c = {}"
  using Next_loop_seen [of "c\<lparr>next_result := None\<rparr>" "next_result c" r c']
  by (simp add: Next_def)

lemma Skip_loop_seen:
  "Skip_loop n c = (r, c') \<Longrightarrow>
     seen c \<subseteq> seen c' \<and>
     (\<forall>rs. r = Inr rs \<longrightarrow>
        distinct (map fst rs) \<and> fst ` set rs \<inter> seen c = {} \<and> seen c' = seen c \<union> fst ` set rs)"
proof (induction n arbitrary: c r c')
  case 0
  then have "r = Inr []" "c' = c" by simp_all
  then show ?case by simp
next
  case (Suc n)
  obtain x c1 where x: "Next c = (x, c1)" by (cases "Next c")
  note nx = Next_seen [OF x]
  show ?case
  proof (cases x)
    case (Inl err)
    with x Suc.prems have "r = Inl err" "c' = c1" by simp_all
    with nx Inl show ?thesis by simp
  next
    case (Inr e)
    obtain y c2 where y: "Skip_loop n c1 = (y, c2)" by (cases "Skip_loop n c1")
    note ih = Suc.IH [OF y]
    from nx have mono: "seen c \<subseteq> seen c1" by blast
    show ?thesis
    proof (cases y)
      case (Inl err)
      with Inr x y Suc.prems have "r = Inl err" "c' = c2" by simp_all
      with ih mono show ?thesis by auto
    next
      case rs: (Inr rs)
      with Inr x y Suc.prems have r: "r = Inr (case e of None \<Rightarrow> rs | Some a \<Rightarrow> a # rs)" "c' = c2"
        by simp_all
      from ih rs have d: "distinct (map fst rs)" "fst ` set rs \<inter> seen c1 = {}"
        "seen c2 = seen c1 \<union> fst ` set rs" by simp_all
      show ?thesis
      proof (cases e)
        case None
        with Inr nx have "seen c1 = seen c" by simp
        with None r d show ?thesis by simp
      next
        case (Some a)
        with Inr nx have a: "fst a \<notin> seen c" "seen c1 = insert (fst a) (seen c)" by simp_all
        with Some r d show ?thesis by auto
      qed
    qed
  qed
qed


lemma populate_loop_stop:
  "\<not> int (length rs0) < n \<or> (qc_limit c \<noteq> None \<and> int (card (seen c)) \<ge> the (qc_limit c)) \<Longrightarrow>
   populate_loop n c rs0 = (Inr rs0, c)"
  by (subst populate_loop.simps) auto

lemma populate_loop_step:
  "int (length rs0) < n \<Longrightarrow> \<not> (qc_limit c \<noteq> None \<and> int (card (seen c)) \<ge> the (qc_limit c)) \<Longrightarrow>
   populate_loop n c rs0 =
     (case Next c of
        (Inl err, c') \<Rightarrow> (Inl err, c')
      | (Inr None, c') \<Rightarrow> (Inr rs0, c')
      | (Inr (Some entity), c') \<Rightarrow> populate_loop n c' (rs0 @ [entity]))"
  by (subst populate_loop.simps) auto

lemma populate_loop_seen:
  "populate_loop n c rs0 = (r, c') \<Longrightarrow>
     seen c \<subseteq> seen c' \<and>
     (\<forall>rs. r = Inr rs \<longrightarrow>
        (\<exists>new. rs = rs0 @ new \<and> distinct (map fst new) \<and> fst ` set new \<inter> seen c = {} \<and>
               seen c' = seen c \<union> fst ` set new))"
proof (induction n c rs0 arbitrary: r c' rule: populate_loop.induct)
  case (1 n c rs0)
  show ?case
  proof (cases "int (length rs0) < n \<and> \<not> (qc_limit c \<noteq> None \<and> int (card (seen c)) \<ge> the (qc_limit c))")
    case False
    then have "populate_loop n c rs0 = (Inr rs0, c)"
      by (intro populate_loop_stop) blast
    with "1.prems" have "r = Inr rs0" "c' = c" by simp_all
    then show ?thesis by simp
  next
    case True
    then have l: "int (length rs0) < n"
      and lim: "\<not> (qc_limit c \<noteq> None \<and> int (card (seen c)) \<ge> the (qc_limit c))"
      by blast+
    obtain x c1 where x: "Next c = (x, c1)" by (cases "Next c")
    note nx = Next_seen [OF x]
    from populate_loop_step [OF l lim] x "1.prems"
    have unf: "(case x of Inl err \<Rightarrow> (Inl err, c1)
                | Inr None \<Rightarrow> (Inr rs0, c1)
                | Inr (Some entity) \<Rightarrow> populate_loop n c1 (rs0 @ [entity])) = (r, c')"
      by simp
    show ?thesis
    proof (cases x)
      case (Inl err)
      with unf have "r = Inl err" "c' = c1" by simp_all
      with nx Inl show ?thesis by simp
    next
      case (Inr e)
      show ?thesis
      proof (cases e)
        case None
        with Inr unf have "r = Inr rs0" "c' = c1" by simp_all
        with nx Inr None show ?thesis by simp
      next
        case (Some a)
        with Inr nx have a: "fst a \<notin> seen c" "seen c1 = insert (fst a) (seen c)" by simp_all
        from Some Inr unf have rec: "populate_loop n c1 (rs0 @ [a]) = (r, c')"
          by simp
        from "1.IH" [OF l lim x [symmetric] Inr Some rec]
        have ih: "seen c1 \<subseteq> seen c'"
          "\<forall>rs. r = Inr rs \<longrightarrow>
             (\<exists>new. rs = (rs0 @ [a]) @ new \<and> distinct (map fst new) \<and>
                    fst ` set new \<inter> seen c1 = {} \<and> seen c' = seen c1 \<union> fst ` set new)"
          by simp_all
        show ?thesis
        proof (intro conjI allI impI)
          show "seen c \<subseteq> seen c'" using ih(1) a by auto
        next
          fix rs assume "r = Inr rs"
          with ih(2) obtain new where new: "rs = (rs0 @ [a]) @ new" "distinct (map fst new)"
            "fst ` set new \<inter> seen c1 = {}" "seen c' = seen c1 \<union> fst ` set new"
            by blast
          with a show "\<exists>new. rs = rs0 @ new \<and> distinct (map fst new) \<and>
              fst ` set new \<inter> seen c = {} \<and> seen c' = seen c \<union> fst ` set new"
            by (intro exI [of _ "a # new"]) auto
        qed
      qed
    qed
  qed
qed


lemma Resume_loop_seen: "Resume_loop d t c = (r, c') \<Longrightarrow> seen c' = seen c"
proof (induction d t c arbitrary: r c' rule: Resume_loop.induct)
  case (1 d t c)
  define go where
    "go = ((if d = ASCENDING then position c \<le> t else position c \<ge> t) \<and> cursor c \<noteq> None)"
  have eq: "Resume_loop d t c =
      (if go then (case GetResult c of (Inl err, c') \<Rightarrow> (Inl err, c')
                   | (Inr r, c') \<Rightarrow> Resume_loop d t (c'\<lparr>next_result := r\<rparr>))
       else (Inr (), c))"
    unfolding go_def by (rule Resume_loop.simps)
  show ?case
  proof (cases go)
    case False
    with eq "1.prems" have "c' = c" by simp
    then show ?thesis by simp
  next
    case True
    obtain g c1 where g: "GetResult c = (g, c1)" by (cases "GetResult c")
    then have s: "seen c1 = seen c" by (rule GetResult_seen)
    from True eq g "1.prems"
    have unf: "(case g of Inl err \<Rightarrow> (Inl err, c1)
                | Inr p \<Rightarrow> Resume_loop d t (c1\<lparr>next_result := p\<rparr>)) = (r, c')"
      by simp
    from True have go': "(if d = ASCENDING then position c \<le> t else position c \<ge> t) \<and> cursor c \<noteq> None"
      by (simp add: go_def)
    show ?thesis
    proof (cases g)
      case (Inl err)
      with unf have "c' = c1" by simp
      with s show ?thesis by simp
    next
      case (Inr p)
      with unf have "Resume_loop d t (c1\<lparr>next_result := p\<rparr>) = (r, c')" by simp
      from "1.IH" [OF go' g [symmetric] Inr this] s show ?thesis by simp
    qed
  qed
qed

lemma ResumeFromCompiledCursor_seen:
  "seen (snd (ResumeFromCompiledCursor c cc)) = seen c"
proof -
  have loop: "seen (snd (Resume_loop d t c)) = seen c" for d t
    using Resume_loop_seen [of d t c] by (cases "Resume_loop d t c") simp
  show ?thesis
    by (simp add: ResumeFromCompiledCursor_def loop split: list.splits option.splits)
qed

lemma run_op_seen:
  assumes "run_op c x = (rs, c')"
  shows "distinct (map fst rs) \<and> fst ` set rs \<inter> seen c = {} \<and> seen c \<union> fst ` set rs \<subseteq> seen c'"
proof (cases x)
  case (Op_Resume cc)
  with assms have "rs = []" "c' = snd (ResumeFromCompiledCursor c cc)" by simp_all
  then show ?thesis by (simp add: ResumeFromCompiledCursor_seen)
next
  case (Op_Skip n)
  obtain r c1 where s: "Skip_loop (nat n) c = (r, c1)" by (cases "Skip_loop (nat n) c")
  note sk = Skip_loop_seen [OF s]
  show ?thesis
  proof (cases r)
    case (Inl err)
    with s Op_Skip assms have "rs = []" "c' = c1" by (simp_all add: Skip_def)
    with sk show ?thesis by simp
  next
    case (Inr rs')
    with s Op_Skip assms have "rs = rs'" "c' = c1" by (simp_all add: Skip_def)
    with sk Inr show ?thesis by simp
  qed
next
  case (Op_Populate n)
  let ?n = "if n > MAXIMUM_RESULTS then MAXIMUM_RESULTS else n"
  obtain r c1 where p: "populate_loop ?n c [] = (r, c1)" by (cases "populate_loop ?n c []")
  note pl = populate_loop_seen [OF p]
  show ?thesis
  proof (cases r)
    case (Inl err)
    with p Op_Populate assms have "rs = []" "c' = c1"
      by (simp_all add: PopulateQueryResult_def empty_QueryResult_def Let_def)
    with pl show ?thesis by simp
  next
    case (Inr rs')
    with p Op_Populate assms have "rs = rs'" "c' = c1"
      by (simp_all add: PopulateQueryResult_def empty_QueryResult_def Let_def)
    with pl Inr show ?thesis by simp
  qed
qed

lemma lifetime_distinct:
  "distinct (map fst (lifetime c ops)) \<and> fst ` set (lifetime c ops) \<inter> seen c = {}"
proof (induction ops arbitrary: c)
  case Nil
  show ?case by simp
next
  case (Cons x ops)
  obtain rs c1 where r: "run_op c x = (rs, c1)" by (cases "run_op c x")
  note ro = run_op_seen [OF r]
  note ih = Cons.IH [of c1]
  from r have l: "lifetime c (x # ops) = rs @ lifetime c1 ops" by simp
  from ro ih have "fst ` set rs \<inter> fst ` set (lifetime c1 ops) = {}" by blast
  moreover from ro ih have "fst ` set (lifetime c1 ops) \<inter> seen c = {}" by blast
  ultimately show ?case
    unfolding l using ro ih by (auto simp: image_Un)
qed

lemmas Next_loop_eval = Next_loop_done Next_loop_found Next_loop_fetch

text \<open>
  C5. Over the whole life of a cursor, whatever the rows of its result set are and
  whatever sequence of resumes, skips and batch fetches drives it, the results it
  produces (skipped or returned) carry pairwise different paths: no entity path is
  returned twice, also when the result set repeats a path.
\<close>

theorem cursor_never_repeats_a_path:
  "distinct (map fst (lifetime (QueryCursor_init query dbc) ops))"
  using lifetime_distinct by blast

theorem cursor_never_repeats_a_path_witness:
  "map fst (lifetime (QueryCursor_init example_query \<lparr>db_rows = example_rows, db_rowcount = 3\<rparr>)
              [Op_Skip 1, Op_Populate 20]) = [''Book:0000000001'', ''Book:0000000002''] \<and>
   distinct (map fst (lifetime (QueryCursor_init example_query
                                  \<lparr>db_rows = example_rows, db_rowcount = 3\<rparr>)
                        [Op_Skip 1, Op_Populate 20]))"
proof -
  have "map fst (lifetime (QueryCursor_init example_query \<lparr>db_rows = example_rows, db_rowcount = 3\<rparr>)
              [Op_Skip 1, Op_Populate 20]) = [''Book:0000000001'', ''Book:0000000002'']"
    by (simp add: QueryCursor_init_def example_query_def example_rows_def Skip_def Next_def
        Next_loop_eval unseen_def GetResult_def PopulateQueryResult_def MAXIMUM_RESULTS_def
        populate_loop_stop populate_loop_step empty_QueryResult_def eval_nat_numeral)
  with cursor_never_repeats_a_path [of example_query "\<lparr>db_rows = example_rows, db_rowcount = 3\<rparr>"
      "[Op_Skip 1, Op_Populate 20]"]
  show ?thesis by blast
qed

subsection \<open>The cap on results and counts\<close>

lemma str_nat_digit: "n < 10 \<Longrightarrow> str_nat n = [digit_char n]"
  by (subst str_nat.simps) simp

lemma d3: "digit_char 3 = CHR ''3''"
  by (simp add: digit_char_def)

lemma s3: "str 3 = ''3''"
  by (simp add: str_def str_nat_digit d3)

lemma r9: "replicate 9 CHR ''0'' = ''000000000''"
  by (simp add: numeral_eq_Suc)


lemma str3: "zfill 10 (str 3) = ''0000000003''"
  by (simp add: zfill_def s3 r9)


lemma Count_loop_fst:
  "n \<le> L \<Longrightarrow> fst (Count_loop (Some L) n rs) = min L (n + int (length rs))"
  by (induction rs arbitrary: n) auto

lemma Count_limited:
  assumes "cursor c = Some dbc" and "qc_limit c = Some L" and "0 \<le> L"
  shows "fst (Count c) = Inr (min L (int (length (db_rows dbc))))"
  using assms Count_loop_fst [of 0 L "db_rows dbc"]
  by (auto simp: Count_def split: prod.splits)

lemma split1: "split_on CHR ''!'' ''Book:0000000002!0000000002'' = [''Book:0000000002'', ''0000000002'']"
  by simp

lemma int1: "int_of_str ''0000000002'' = Inr 2"
  by (simp add: int_of_str_def strip_def is_space_def is_digit_def digits_value_def)


lemma apply_cc: "apply_compiled_cursor (cursor_query\<lparr>query_limit := Some 1000\<rparr>) =
   Inr (cursor_query\<lparr>query_limit := Some 1002, query_offset := Some 2\<rparr>)"
  by (simp add: apply_compiled_cursor_def has_position_def cursor_query_def example_query_def
      int1 limit_of_def)


lemma count_overshoot:
  assumes rs: "drop 2 rs = (p, d, parts) # rest"
    and pos: "concat parts > ''Book:0000000002!0000000002''"
    and len: "1001 \<le> length rest"
  shows "fst (Dynamic_Count example_ext (example_planner rs) (DatastoreMySQLStub ''app'' False)
           cursor_query) = Inr 1001"
proof -
  let ?st = "DatastoreMySQLStub ''app'' False"
  let ?pl = "example_planner rs"
  let ?q1 = "cursor_query\<lparr>query_limit := Some 1000\<rparr>"
  let ?q3 = "cursor_query\<lparr>query_limit := Some 1002, query_offset := Some 0\<rparr>"
  let ?target = "''Book:0000000002!0000000002''"
  let ?dbc = "\<lparr>db_rows = (p, d, parts) # take 1001 rest, db_rowcount = 1002\<rparr>"
  let ?c0 = "QueryCursor_init ?q3 ?dbc"
  let ?dbc1 = "\<lparr>db_rows = take 1001 rest, db_rowcount = 1002\<rparr>"
  let ?c1 = "?c0\<lparr>cursor := Some ?dbc1, position := concat parts, next_result := Some (p, d)\<rparr>"
  have lim: "add_limit (cursor_query\<lparr>query_limit := Some 1002, query_offset := Some 2\<rparr>) =
      (LimitOffset 2 1002, ?q3)"
    by (simp add: add_limit_def limit_of_def offset_of_def)
  have ex: "ExecuteSQL ?pl ?st () (LimitOffset 2 1002) = Inr ?dbc"
    using rs len by (simp add: ExecuteSQL_def example_planner_def Let_def)
  have hp: "has_position ?q3"
    and cc: "the (compiled_cursor cursor_query) = \<lparr>position_list = [?target]\<rparr>"
    and ecc: "end_compiled_cursor ?q3 = None" and dir: "query_direction ?q3 = ASCENDING"
    by (simp_all add: has_position_def cursor_query_def example_query_def query_direction_def)
  have g: "GetResult ?c0 = (Inr (Some (p, d)),
      ?c0\<lparr>cursor := Some ?dbc1, position := concat parts\<rparr>)"
    by (simp add: GetResult_def QueryCursor_init_def ecc)
  have npos: "\<not> concat parts \<le> ?target"
    using pos by simp
  have r1: "Resume_loop ASCENDING ?target ?c1 = (Inr (), ?c1)"
    by (subst Resume_loop.simps) (simp add: npos)
  have r0: "Resume_loop ASCENDING ?target ?c0 = Resume_loop ASCENDING ?target ?c1"
    by (subst Resume_loop.simps) (simp add: g, simp add: QueryCursor_init_def)
  have res: "ResumeFromCompiledCursor ?c0 \<lparr>position_list = [?target]\<rparr> = (Inr (), ?c1)"
    using r0 r1 by (simp add: ResumeFromCompiledCursor_def QueryCursor_init_def ecc dir)
  have open': "fst (open_cursor ?pl ?st ?q1 ()) = Inr (?c1, ?q3)"
    by (simp add: open_cursor_def apply_cc lim ex hp cc res Skip_def offset_of_def)
  have plan: "fst (plan_query example_ext ?pl ?st ?q1) = Inr (?c1, ?q3)"
    using open'
    by (simp add: plan_query_def ValidateAppId_def DatastoreMySQLStub_def example_planner_def
        cursor_query_def example_query_def GenerateFilterInfo_def split: prod.splits)
  have gq: "fst (GetQueryCursor example_ext ?pl ?st ?q1) = Inr (?c1, ?q3)"
    using plan
    by (simp add: GetQueryCursor_def cursor_query_def example_query_def num_components_def
        MAX_QUERY_COMPONENTS_def)
  have cnt: "fst (Count ?c1) = Inr 1001"
    using len Count_limited [of ?c1 ?dbc1 1002]
    by (simp add: QueryCursor_init_def limit_of_def offset_of_def)
  have conn: "GetConnection ?st (query_transaction ?q1) = Inr ()"
    by (simp add: GetConnection_def tx_handle_def cursor_query_def example_query_def
        DatastoreMySQLStub_def)
  have ql: "query_limit cursor_query = None" "query_transaction cursor_query = None"
    by (simp_all add: cursor_query_def example_query_def)
  obtain st1 where gq': "GetQueryCursor example_ext ?pl ?st ?q1 = (Inr (?c1, ?q3), st1)"
    using gq by (cases "GetQueryCursor example_ext ?pl ?st ?q1") simp
  obtain c' where cnt': "Count ?c1 = (Inr 1001, c')"
    using cnt by (cases "Count ?c1") simp
  show ?thesis
    using conn by (simp add: Dynamic_Count_def MAXIMUM_RESULTS_def ql gq' cnt')
qed


lemma book_row_2:
  "book_row 2 = (''Book:0000000003'', example_entity ''Book'' 3, [''Book:0000000003''])"
  by (simp add: book_row_def str3)

lemma drop_book_rows:
  assumes "2 < n"
  shows "drop 2 (book_rows n) =
           (''Book:0000000003'', example_entity ''Book'' 3, [''Book:0000000003'']) #
           map book_row [3..<n]"
proof -
  have e1: "drop 2 [0..<n] = [0 + 2..<n]"
    by (rule drop_upt)
  have e2: "[2..<n] = 2 # [Suc 2..<n]"
    using assms by (intro upt_conv_Cons)
  have e3: "Suc 2 = 3"
    by simp
  have "drop 2 (book_rows n) = map book_row (drop 2 [0..<n])"
    unfolding book_rows_def by (rule drop_map)
  also have "\<dots> = map book_row (2 # [3..<n])"
    by (simp only: e1 add_0 e2 e3)
  also have "\<dots> = book_row 2 # map book_row [3..<n]"
    by (rule list.map(2))
  finally show ?thesis
    by (simp only: book_row_2)
qed

lemma count_overshoot_books:
  assumes "1004 \<le> n"
  shows "fst (Dynamic_Count example_ext (example_planner (book_rows n))
                (DatastoreMySQLStub ''app'' False) cursor_query) = Inr 1001"
proof (rule count_overshoot)
  show "drop 2 (book_rows n) =
          (''Book:0000000003'', example_entity ''Book'' 3, [''Book:0000000003'']) #
          map book_row [3..<n]"
    using assms by (intro drop_book_rows) simp
  show "''Book:0000000002!0000000002'' < concat [''Book:0000000003'']"
    by simp
  show "1001 \<le> length (map book_row [3..<n])"
    using assms by simp
qed

text \<open>
  C10. A batch is capped at 1000 results, and \<^verbatim>\<open>_Dynamic_Count\<close> clamps the limit of
  its query to 1000; but when the query carries a compiled cursor, \<^verbatim>\<open>__GetQueryCursor\<close>
  adds the cursor's row offset to the clamped limit, and the count can pass 1000. With
  1100 books stored, the count of all books from the compiled cursor that a fetch of
  two results returned is 1001.
\<close>

theorem count_exceeds_maximum_results:
  "fst (Dynamic_Count example_ext (example_planner (book_rows 1100))
          (DatastoreMySQLStub ''app'' False) cursor_query) = Inr 1001"
  by (rule count_overshoot_books) simp

subsection \<open>Transactional write buffering\<close>

text \<open>No table operation touches the two sets of the transaction.\<close>

lemma tx_sets_GetTablePrefix [simp]: "tx_sets (snd (GetTablePrefix st data)) = tx_sets st"
  by (simp add: GetTablePrefix_def ConfigureNamespace_def tx_sets_def Let_def split: option.splits)

lemma tx_sets_AllocateIds [simp]: "tx_sets (snd (AllocateIds st p n)) = tx_sets st"
  by (simp add: AllocateIds_def tx_sets_def Let_def split: option.splits prod.splits)

lemma tx_sets_DeleteRows [simp]: "tx_sets (snd (DeleteRows st paths p t)) = tx_sets st"
  by (simp add: DeleteRows_def tx_sets_def split: table.splits)

lemma tx_sets_DeleteEntityRows [simp]: "tx_sets (snd (DeleteEntityRows st keys t)) = tx_sets st"
proof (cases "groupby (\<lambda>x. (app x, name_space x)) (sort_key (\<lambda>x. (app x, name_space x)) keys)")
  case Nil
  then show ?thesis by (simp add: DeleteEntityRows_def)
next
  case (Cons g gs)
  obtain a ns grp where g: "g = ((a, ns), grp)" by (cases g) auto
  show ?thesis
  proof (cases "collect (\<lambda>x. encode_path (path x)) grp")
    case (Inl err)
    with Cons g show ?thesis by (simp add: DeleteEntityRows_def)
  next
    case (Inr path_strings)
    obtain prefix st1 where p: "GetTablePrefix st (a, ns) = (prefix, st1)"
      by (cases "GetTablePrefix st (a, ns)")
    obtain n st2 where d: "DeleteRows st1 path_strings prefix t = (n, st2)"
      by (cases "DeleteRows st1 path_strings prefix t")
    have "tx_sets st1 = tx_sets st"
      using tx_sets_GetTablePrefix [of st "(a, ns)"] p by simp
    moreover have "tx_sets st2 = tx_sets st1"
      using tx_sets_DeleteRows [of st1 path_strings prefix t] d by simp
    moreover have "snd (DeleteEntityRows st keys t) = st2"
      using Cons g Inr p d by (simp add: DeleteEntityRows_def)
    ultimately show ?thesis by simp
  qed
qed

lemma tx_sets_DeleteIndexEntries [simp]:
  "tx_sets (snd (DeleteIndexEntries st keys)) = tx_sets st"
proof -
  obtain r st1 where d: "DeleteEntityRows st keys T_EntitiesByProperty = (r, st1)"
    by (cases "DeleteEntityRows st keys T_EntitiesByProperty")
  then have "snd (DeleteIndexEntries st keys) = st1"
    by (cases r) (simp_all add: DeleteIndexEntries_def)
  with tx_sets_DeleteEntityRows [of st keys T_EntitiesByProperty] d show ?thesis by simp
qed

lemma tx_sets_DeleteEntities [simp]: "tx_sets (snd (DeleteEntities st keys)) = tx_sets st"
proof -
  obtain r1 st1 where i: "DeleteIndexEntries st keys = (r1, st1)"
    by (cases "DeleteIndexEntries st keys")
  then have 1: "tx_sets st1 = tx_sets st" using tx_sets_DeleteIndexEntries [of st keys] by simp
  obtain r2 st2 where d: "DeleteEntityRows st1 keys T_Entities = (r2, st2)"
    by (cases "DeleteEntityRows st1 keys T_Entities")
  then have 2: "tx_sets st2 = tx_sets st1"
    using tx_sets_DeleteEntityRows [of st1 keys T_Entities] by simp
  show ?thesis
  proof (cases r1)
    case (Inl err)
    with i 1 show ?thesis by (simp add: DeleteEntities_def)
  next
    case (Inr u)
    with i d have "snd (DeleteEntities st keys) = st2"
      by (cases r2) (simp_all add: DeleteEntities_def)
    with 1 2 show ?thesis by simp
  qed
qed

lemma tx_sets_prefixes [simp]: "tx_sets (snd (prefixes st es)) = tx_sets st"
proof (induction es arbitrary: st)
  case Nil
  show ?case by simp
next
  case (Cons e es)
  obtain prefix st1 where p: "GetTablePrefix st (app (key e), name_space (key e)) = (prefix, st1)"
    by (cases "GetTablePrefix st (app (key e), name_space (key e))")
  obtain rest st2 where r: "prefixes st1 es = (rest, st2)" by (cases "prefixes st1 es")
  have "tx_sets st1 = tx_sets st"
    using tx_sets_GetTablePrefix [of st "(app (key e), name_space (key e))"] p by simp
  moreover have "tx_sets st2 = tx_sets st1"
    using Cons.IH [of st1] r by simp
  moreover have "snd (prefixes st (e # es)) = st2"
    using p r by simp
  ultimately show ?case by simp
qed

lemma tx_sets_insert_groups [simp]: "tx_sets (snd (insert_groups st gs)) = tx_sets st"
proof (induction gs arbitrary: st)
  case Nil
  show ?case by simp
next
  case (Cons g gs)
  obtain prefix grp where g: "g = (prefix, grp)" by (cases g)
  show ?case
  proof (cases "collect (\<lambda>(unused_prefix, e). entity_row_of e) grp")
    case (Inl err)
    with g show ?thesis by simp
  next
    case (Inr group_rows)
    let ?st1 = "st\<lparr>Entities := (Entities st)(prefix := foldl replace_row (Entities st prefix) group_rows)\<rparr>"
    have "tx_sets ?st1 = tx_sets st" by (simp add: tx_sets_def)
    with Inr g Cons.IH [of ?st1] show ?thesis by simp
  qed
qed

lemma tx_sets_insert_index_groups [simp]: "tx_sets (snd (insert_index_groups x st gs)) = tx_sets st"
proof (induction gs arbitrary: st)
  case Nil
  show ?case by simp
next
  case (Cons g gs)
  obtain prefix grp where g: "g = (prefix, grp)" by (cases g)
  show ?case
  proof (cases "collect (\<lambda>(unused_prefix, e). property_rows_of x e) grp")
    case (Inl err)
    with g show ?thesis by simp
  next
    case (Inr rowss)
    let ?st1 = "st\<lparr>EntitiesByProperty := (EntitiesByProperty st)(prefix :=
                   foldl insert_ignore (EntitiesByProperty st prefix) (concat rowss))\<rparr>"
    have "tx_sets ?st1 = tx_sets st" by (simp add: tx_sets_def)
    with Inr g Cons.IH [of ?st1] show ?thesis by simp
  qed
qed

lemma tx_sets_InsertEntities [simp]: "tx_sets (snd (InsertEntities st es)) = tx_sets st"
  using tx_sets_prefixes [of st es]
  by (cases "prefixes st es") (simp add: InsertEntities_def)

lemma tx_sets_InsertIndexEntries [simp]: "tx_sets (snd (InsertIndexEntries x st es)) = tx_sets st"
  using tx_sets_prefixes [of st es]
  by (cases "prefixes st es") (simp add: InsertIndexEntries_def)

lemma tx_sets_PutEntities [simp]: "tx_sets (snd (PutEntities x st es)) = tx_sets st"
proof -
  obtain r1 st1 where d: "DeleteIndexEntries st (map key es) = (r1, st1)"
    by (cases "DeleteIndexEntries st (map key es)")
  then have 1: "tx_sets st1 = tx_sets st"
    using tx_sets_DeleteIndexEntries [of st "map key es"] by simp
  obtain r st2 where i: "InsertEntities st1 es = (r, st2)" by (cases "InsertEntities st1 es")
  have 2: "tx_sets st2 = tx_sets st1" using tx_sets_InsertEntities [of st1 es] i by simp
  show ?thesis
  proof (cases r1)
    case (Inl err)
    with d 1 show ?thesis by (simp add: PutEntities_def)
  next
    case r1: (Inr u1)
    show ?thesis
    proof (cases r)
      case (Inl err)
      with d r1 i 1 2 show ?thesis by (simp add: PutEntities_def)
    next
      case (Inr u)
      with d r1 i 1 2 show ?thesis by (simp add: PutEntities_def)
    qed
  qed
qed

lemma complete_entity_cases:
  assumes "complete_entity x st e = (r, st')"
  obtains "st' = st" "\<And>e'. r = Inr e' \<Longrightarrow> key e' = key e"
  | prefix st1 a where "GetTablePrefix st (app (key e), name_space (key e)) = (prefix, st1)"
      "AllocateIds st1 prefix 1 = (a, st')" "\<not> complete_key (key e)"
proof (cases "ValidateKey st (key e)")
  case (Inl err)
  with assms have "st' = st" "r = Inl err" by (simp_all add: complete_entity_def)
  with that(1) show ?thesis by simp
next
  case (Inr u)
  let ?e1 = "e\<lparr>property_list := map (set_obfuscated_gaiaid x) (property_list e),
                raw_property_list := map (set_obfuscated_gaiaid x) (raw_property_list e)\<rparr>"
  show ?thesis
  proof (cases "path (key e) = []")
    case True
    with Inr assms have "st' = st" "r = Inl AssertionError" by (simp_all add: complete_entity_def)
    with that(1) show ?thesis by simp
  next
    case False
    show ?thesis
    proof (cases "id_of (last (path (key e))) = 0 \<and> \<not> has_name (last (path (key e)))")
      case False': False
      with False Inr assms have "st' = st"
        by (simp add: complete_entity_def Let_def split: if_splits)
      moreover from False' False Inr assms have "key e' = key e" if "r = Inr e'" for e'
        using that by (auto simp: complete_entity_def Let_def split: if_splits)
      ultimately show ?thesis using that(1) by blast
    next
      case True
      obtain prefix st1 where p: "GetTablePrefix st (app (key e), name_space (key e)) = (prefix, st1)"
        by (cases "GetTablePrefix st (app (key e), name_space (key e))")
      obtain a st2 where al: "AllocateIds st1 prefix 1 = (a, st2)"
        by (cases "AllocateIds st1 prefix 1")
      from True False Inr assms p al have "st' = st2"
        by (cases a) (simp_all add: complete_entity_def Let_def split: if_splits)
      moreover from True have "\<not> complete_key (key e)"
        by (simp add: complete_key_def)
      ultimately show ?thesis using that(2) p al by blast
    qed
  qed
qed

lemma tx_sets_complete_entity:
  assumes "complete_entity x st e = (r, st')"
  shows "tx_sets st' = tx_sets st"
  using assms
proof (cases rule: complete_entity_cases)
  case 1
  then show ?thesis by simp
next
  case (2 prefix st1 a)
  from 2(1) have "tx_sets st1 = tx_sets st"
    using tx_sets_GetTablePrefix [of st "(app (key e), name_space (key e))"] by simp
  moreover from 2(2) have "tx_sets st' = tx_sets st1"
    using tx_sets_AllocateIds [of st1 prefix 1] by simp
  ultimately show ?thesis by simp
qed

lemma complete_entity_key:
  assumes "complete_entity x st e = (Inr e', st')" and "complete_key (key e)"
  shows "key e' = key e"
  using assms(1)
proof (cases rule: complete_entity_cases)
  case 1
  then show ?thesis by simp
next
  case (2 prefix st1 a)
  with assms(2) show ?thesis by simp
qed

lemma tx_disjoint_cong: "tx_sets st' = tx_sets st \<Longrightarrow> tx_disjoint st' = tx_disjoint st"
  by (simp add: tx_sets_def tx_disjoint_def)

lemma put_entity_tx:
  assumes "put_entity x t st e = (r, st')"
  shows "(tx_disjoint st \<longrightarrow> tx_disjoint st') \<and>
      dom (tx_writes st) \<subseteq> dom (tx_writes st') \<and> tx_deletes st' \<subseteq> tx_deletes st \<and>
      (\<forall>e'. r = Inr e' \<longrightarrow>
         (tx_handle t \<noteq> 0 \<longrightarrow> key e' \<in> dom (tx_writes st') \<and> key e' \<notin> tx_deletes st') \<and>
         (complete_key (key e) \<longrightarrow> key e' = key e)) \<and>
      (tx_handle t = 0 \<longrightarrow> tx_sets st' = tx_sets st)"
proof -
  obtain r3 st3 where c: "complete_entity x st e = (r3, st3)"
    by (cases "complete_entity x st e")
  note fr = tx_sets_complete_entity [OF c]
  then have w: "tx_writes st3 = tx_writes st" and d: "tx_deletes st3 = tx_deletes st"
    by (simp_all add: tx_sets_def)
  show ?thesis
  proof (cases r3)
    case (Inl err)
    with c assms have "st' = st3" "r = Inl err" by (simp_all add: put_entity_def)
    with w d show ?thesis
      by (simp add: tx_disjoint_def tx_sets_def)
  next
    case (Inr e3)
    with c have k: "complete_key (key e) \<Longrightarrow> key e3 = key e"
      using complete_entity_key by blast
    show ?thesis
    proof (cases "tx_handle t = 0")
      case True
      with Inr c assms have "st' = st3" "r = Inr e3" by (simp_all add: put_entity_def)
      with w d k True show ?thesis by (simp add: tx_disjoint_def tx_sets_def)
    next
      case False
      with Inr c assms have r: "r = Inr e3"
        and s: "st' = st3\<lparr>tx_writes := (tx_writes st3)(key e3 \<mapsto> e3),
                    tx_deletes := tx_deletes st3 - {key e3}\<rparr>"
        by (simp_all add: put_entity_def)
      have w': "tx_writes st' = (tx_writes st)(key e3 \<mapsto> e3)"
        and d': "tx_deletes st' = tx_deletes st - {key e3}"
        unfolding s using w d by simp_all
      have "tx_disjoint st \<longrightarrow> tx_disjoint st'"
        unfolding tx_disjoint_def w' d' by auto
      moreover have "dom (tx_writes st) \<subseteq> dom (tx_writes st')" "tx_deletes st' \<subseteq> tx_deletes st"
        "key e3 \<in> dom (tx_writes st')" "key e3 \<notin> tx_deletes st'"
        unfolding w' d' by auto
      ultimately show ?thesis using k False r by simp
    qed
  qed
qed

lemma put_entity_disjoint:
  "put_entity x t st e = (r, st') \<Longrightarrow> tx_disjoint st \<Longrightarrow> tx_disjoint st'"
  using put_entity_tx by blast

lemma put_entity_mono:
  "put_entity x t st e = (r, st') \<Longrightarrow>
     dom (tx_writes st) \<subseteq> dom (tx_writes st') \<and> tx_deletes st' \<subseteq> tx_deletes st"
  using put_entity_tx by blast

lemma put_entity_recorded:
  "put_entity x t st e = (Inr e', st') \<Longrightarrow> tx_handle t \<noteq> 0 \<Longrightarrow>
     key e' \<in> dom (tx_writes st') \<and> key e' \<notin> tx_deletes st'"
  using put_entity_tx by blast

lemma put_entity_key:
  "put_entity x t st e = (Inr e', st') \<Longrightarrow> complete_key (key e) \<Longrightarrow> key e' = key e"
  using put_entity_tx by blast

lemma put_entity_frame:
  "put_entity x t st e = (r, st') \<Longrightarrow> tx_handle t = 0 \<Longrightarrow> tx_sets st' = tx_sets st"
  using put_entity_tx by blast

lemma put_loop_Cons_cases:
  assumes "put_loop x t st (e # es) = (r, st')"
  obtains (first) err where "put_entity x t st e = (Inl err, st')" "r = Inl err"
  | (rest) e1 st1 err where "put_entity x t st e = (Inr e1, st1)"
      "put_loop x t st1 es = (Inl err, st')" "r = Inl err"
  | (ok) e1 st1 es' where "put_entity x t st e = (Inr e1, st1)"
      "put_loop x t st1 es = (Inr es', st')" "r = Inr (e1 # es')"
proof -
  obtain r1 st1 where p: "put_entity x t st e = (r1, st1)" by (cases "put_entity x t st e")
  show ?thesis
  proof (cases r1)
    case (Inl err)
    with p assms have "r = Inl err" "st' = st1" by simp_all
    with p Inl first show ?thesis by simp
  next
    case (Inr e1)
    obtain r2 st2 where l: "put_loop x t st1 es = (r2, st2)" by (cases "put_loop x t st1 es")
    show ?thesis
    proof (cases r2)
      case (Inl err)
      with Inr p l assms have "r = Inl err" "st' = st2" by simp_all
      with p l Inr Inl rest show ?thesis by simp
    next
      case es': (Inr es')
      with Inr p l assms have "r = Inr (e1 # es')" "st' = st2" by simp_all
      with p l Inr es' ok show ?thesis by simp
    qed
  qed
qed

lemma put_loop_disjoint:
  "put_loop x t st es = (r, st') \<Longrightarrow> tx_disjoint st \<Longrightarrow> tx_disjoint st'"
proof (induction es arbitrary: st r st')
  case Nil
  then show ?case by simp
next
  case (Cons e es)
  from Cons.prems(1) show ?case
  proof (cases rule: put_loop_Cons_cases)
    case (first err)
    then show ?thesis using put_entity_disjoint Cons.prems(2) by blast
  next
    case (rest e1 st1 err)
    then show ?thesis using put_entity_disjoint Cons.prems(2) Cons.IH by blast
  next
    case (ok e1 st1 es')
    then show ?thesis using put_entity_disjoint Cons.prems(2) Cons.IH by blast
  qed
qed

lemma put_loop_mono:
  "put_loop x t st es = (r, st') \<Longrightarrow>
     dom (tx_writes st) \<subseteq> dom (tx_writes st') \<and> tx_deletes st' \<subseteq> tx_deletes st"
proof (induction es arbitrary: st r st')
  case Nil
  then show ?case by simp
next
  case (Cons e es)
  from Cons.prems(1) show ?case
  proof (cases rule: put_loop_Cons_cases)
    case (first err)
    then show ?thesis using put_entity_mono by blast
  next
    case (rest e1 st1 err)
    from put_entity_mono [OF rest(1)] Cons.IH [OF rest(2)] show ?thesis by blast
  next
    case (ok e1 st1 es')
    from put_entity_mono [OF ok(1)] Cons.IH [OF ok(2)] show ?thesis by blast
  qed
qed

lemma put_loop_frame:
  "put_loop x t st es = (r, st') \<Longrightarrow> tx_handle t = 0 \<Longrightarrow> tx_sets st' = tx_sets st"
proof (induction es arbitrary: st r st')
  case Nil
  then show ?case by simp
next
  case (Cons e es)
  from Cons.prems(1) show ?case
  proof (cases rule: put_loop_Cons_cases)
    case (first err)
    then show ?thesis using put_entity_frame Cons.prems(2) by blast
  next
    case (rest e1 st1 err)
    from put_entity_frame [OF rest(1) Cons.prems(2)] Cons.IH [OF rest(2) Cons.prems(2)]
    show ?thesis by simp
  next
    case (ok e1 st1 es')
    from put_entity_frame [OF ok(1) Cons.prems(2)] Cons.IH [OF ok(2) Cons.prems(2)]
    show ?thesis by simp
  qed
qed

lemma put_loop_recorded:
  "put_loop x t st es = (Inr es', st') \<Longrightarrow> tx_handle t \<noteq> 0 \<Longrightarrow> e' \<in> set es' \<Longrightarrow>
     key e' \<in> dom (tx_writes st') \<and> key e' \<notin> tx_deletes st'"
proof (induction es arbitrary: st es' st')
  case Nil
  then show ?case by simp
next
  case (Cons e es)
  from Cons.prems(1) show ?case
  proof (cases rule: put_loop_Cons_cases)
    case (first err)
    then show ?thesis by simp
  next
    case (rest e1 st1 err)
    then show ?thesis by simp
  next
    case (ok e1 st1 es1)
    then have es': "es' = e1 # es1" by simp
    show ?thesis
    proof (cases "e' = e1")
      case True
      from put_entity_recorded [OF ok(1) Cons.prems(2)] put_loop_mono [OF ok(2)] True
      show ?thesis by blast
    next
      case False
      with es' Cons.prems(3) have "e' \<in> set es1" by simp
      from Cons.IH [OF ok(2) Cons.prems(2) this] show ?thesis .
    qed
  qed
qed

lemma put_loop_keys:
  "put_loop x t st es = (Inr es', st') \<Longrightarrow> e \<in> set es \<Longrightarrow> complete_key (key e) \<Longrightarrow>
     key e \<in> key ` set es'"
proof (induction es arbitrary: st es' st')
  case Nil
  then show ?case by simp
next
  case (Cons e0 es)
  from Cons.prems(1) show ?case
  proof (cases rule: put_loop_Cons_cases)
    case (first err)
    then show ?thesis by simp
  next
    case (rest e1 st1 err)
    then show ?thesis by simp
  next
    case (ok e1 st1 es1)
    then have es': "es' = e1 # es1" by simp
    show ?thesis
    proof (cases "e = e0")
      case True
      with put_entity_key [OF ok(1)] Cons.prems(3) have "key e1 = key e" by simp
      with es' show ?thesis by (simp add: image_iff)
    next
      case False
      with Cons.prems(2) have "e \<in> set es" by simp
      from Cons.IH [OF ok(2) this Cons.prems(3)] es' show ?thesis by auto
    qed
  qed
qed

lemma tx_sets_enter_tx: "tx_sets (snd (enter_tx st t ks)) = tx_sets st"
proof (cases t)
  case None
  then show ?thesis by (simp add: enter_tx_def)
next
  case (Some tr)
  show ?thesis
  proof (cases "ExtractEntityGroupFromKeys ks")
    case (Inl err)
    with Some show ?thesis by (simp add: enter_tx_def)
  next
    case (Inr g)
    with Some show ?thesis by (simp add: enter_tx_def tx_sets_def)
  qed
qed

lemma tx_sets_enter_tx_delete: "tx_sets (snd (enter_tx_delete st t ks)) = tx_sets st"
proof (cases t)
  case None
  then show ?thesis by (simp add: enter_tx_delete_def)
next
  case (Some tr)
  show ?thesis
  proof (cases "ExtractEntityGroupFromKeys ks")
    case (Inl err)
    with Some show ?thesis by (simp add: enter_tx_delete_def)
  next
    case (Inr g)
    with Some show ?thesis by (simp add: enter_tx_delete_def tx_sets_def)
  qed
qed

lemma tx_disjoint_enter_tx: "enter_tx st t ks = (r, st1) \<Longrightarrow> tx_disjoint st1 = tx_disjoint st"
proof (rule tx_disjoint_cong)
  assume "enter_tx st t ks = (r, st1)"
  with tx_sets_enter_tx [of st t ks] show "tx_sets st1 = tx_sets st" by simp
qed

lemma tx_disjoint_enter_tx_delete:
  "enter_tx_delete st t ks = (r, st1) \<Longrightarrow> tx_disjoint st1 = tx_disjoint st"
proof (rule tx_disjoint_cong)
  assume "enter_tx_delete st t ks = (r, st1)"
  with tx_sets_enter_tx_delete [of st t ks] show "tx_sets st1 = tx_sets st" by simp
qed

lemma Dynamic_Put_cases:
  assumes "Dynamic_Put x st req = (r, st')"
  obtains (conn) err where "st' = st" "r = Inl err"
  | (enter) err where "enter_tx st (put_transaction req) (map key (entity_list req)) = (Inl err, st')"
      "r = Inl err"
  | (loop) st1 err where "enter_tx st (put_transaction req) (map key (entity_list req)) = (Inr (), st1)"
      "put_loop x (put_transaction req) st1 (entity_list req) = (Inl err, st')" "r = Inl err"
  | (tx) st1 es where "enter_tx st (put_transaction req) (map key (entity_list req)) = (Inr (), st1)"
      "put_loop x (put_transaction req) st1 (entity_list req) = (Inr es, st')"
      "tx_handle (put_transaction req) \<noteq> 0" "r = Inr (map key es)"
  | (direct) st1 st2 es r3 where "enter_tx st (put_transaction req) (map key (entity_list req)) = (Inr (), st1)"
      "put_loop x (put_transaction req) st1 (entity_list req) = (Inr es, st2)"
      "tx_handle (put_transaction req) = 0" "PutEntities x st2 es = (r3, st')"
      "r = (case r3 of Inl err \<Rightarrow> Inl err | Inr u \<Rightarrow> Inr (map key es))"
proof (cases "GetConnection st (put_transaction req)")
  case (Inl err)
  with assms have "st' = st" "r = Inl err" by (simp_all add: Dynamic_Put_def)
  with conn show ?thesis .
next
  case c: (Inr u)
  obtain r1 st1 where e: "enter_tx st (put_transaction req) (map key (entity_list req)) = (r1, st1)"
    by (cases "enter_tx st (put_transaction req) (map key (entity_list req))")
  show ?thesis
  proof (cases r1)
    case (Inl err)
    with c e assms have "st' = st1" "r = Inl err" by (simp_all add: Dynamic_Put_def)
    with e Inl enter show ?thesis by simp
  next
    case r1: (Inr u1)
    obtain r2 st2 where l: "put_loop x (put_transaction req) st1 (entity_list req) = (r2, st2)"
      by (cases "put_loop x (put_transaction req) st1 (entity_list req)")
    show ?thesis
    proof (cases r2)
      case (Inl err)
      with c e r1 l assms have "st' = st2" "r = Inl err" by (simp_all add: Dynamic_Put_def)
      with e r1 l Inl loop show ?thesis by simp
    next
      case r2: (Inr es)
      show ?thesis
      proof (cases "tx_handle (put_transaction req) = 0")
        case False
        with c e r1 l r2 assms have "st' = st2" "r = Inr (map key es)"
          by (simp_all add: Dynamic_Put_def)
        with e r1 l r2 False tx show ?thesis by simp
      next
        case True
        obtain r3 st3 where p: "PutEntities x st2 es = (r3, st3)" by (cases "PutEntities x st2 es")
        have "st' = st3 \<and> r = (case r3 of Inl err \<Rightarrow> Inl err | Inr u \<Rightarrow> Inr (map key es))"
        proof (cases r3)
          case (Inl err)
          with p c e r1 l r2 True assms show ?thesis by (simp add: Dynamic_Put_def)
        next
          case (Inr u3)
          with p c e r1 l r2 True assms show ?thesis by (simp add: Dynamic_Put_def)
        qed
        with e r1 l r2 True p direct show ?thesis by simp
      qed
    qed
  qed
qed

lemma Dynamic_Put_disjoint:
  assumes "Dynamic_Put x st req = (r, st')" "tx_disjoint st"
  shows "tx_disjoint st'"
  using assms(1)
proof (cases rule: Dynamic_Put_cases)
  case (conn err)
  with assms(2) show ?thesis by simp
next
  case (enter err)
  from tx_disjoint_enter_tx [OF enter(1)] assms(2) show ?thesis by simp
next
  case (loop st1 err)
  from tx_disjoint_enter_tx [OF loop(1)] assms(2) have "tx_disjoint st1" by simp
  with loop(2) show ?thesis by (rule put_loop_disjoint)
next
  case (tx st1 es)
  from tx_disjoint_enter_tx [OF tx(1)] assms(2) have "tx_disjoint st1" by simp
  with tx(2) show ?thesis by (rule put_loop_disjoint)
next
  case (direct st1 st2 es r3)
  from tx_disjoint_enter_tx [OF direct(1)] assms(2) have "tx_disjoint st1" by simp
  with direct(2) have d2: "tx_disjoint st2" by (rule put_loop_disjoint)
  from direct(4) have "tx_sets st' = tx_sets st2"
    using tx_sets_PutEntities [of x st2 es] by simp
  then have "tx_disjoint st' = tx_disjoint st2" by (rule tx_disjoint_cong)
  with d2 show ?thesis by simp
qed

lemma Dynamic_Put_recorded:
  assumes "Dynamic_Put x st req = (Inr ks, st')" "tx_handle (put_transaction req) \<noteq> 0"
  shows "(\<forall>k \<in> set ks. k \<in> dom (tx_writes st') \<and> k \<notin> tx_deletes st') \<and>
     (\<forall>e \<in> set (entity_list req). complete_key (key e) \<longrightarrow> key e \<in> set ks)"
  using assms(1)
proof (cases rule: Dynamic_Put_cases)
  case (conn err)
  then show ?thesis by simp
next
  case (enter err)
  then show ?thesis by simp
next
  case (loop st1 err)
  then show ?thesis by simp
next
  case (tx st1 es)
  then have ks: "ks = map key es" by simp
  have "\<forall>k \<in> set ks. k \<in> dom (tx_writes st') \<and> k \<notin> tx_deletes st'"
    unfolding ks using put_loop_recorded [OF tx(2) assms(2)] by auto
  moreover have "\<forall>e \<in> set (entity_list req). complete_key (key e) \<longrightarrow> key e \<in> set ks"
    unfolding ks using put_loop_keys [OF tx(2)] by auto
  ultimately show ?thesis by simp
next
  case (direct st1 st2 es r3)
  with assms(2) show ?thesis by simp
qed


lemma delete_loop_Cons_cases:
  assumes "delete_loop t st (k # ks) = (r, st')"
  obtains (invalid) err where "r = Inl err" "st' = st"
  | (step) st1 where "delete_loop t st1 ks = (r, st')"
      "tx_handle t \<noteq> 0 \<Longrightarrow>
         tx_writes st1 = (tx_writes st)(k := None) \<and> tx_deletes st1 = insert k (tx_deletes st)"
      "tx_handle t = 0 \<Longrightarrow> st1 = st"
proof (cases "ValidateAppId st (app k)")
  case (Inl err)
  with assms have "r = Inl err" "st' = st" by simp_all
  with invalid show ?thesis .
next
  case (Inr u)
  define st1 where "st1 = (if tx_handle t \<noteq> 0
             then st\<lparr>tx_deletes := insert k (tx_deletes st),
                     tx_writes := (tx_writes st)(k := None)\<rparr>
             else st)"
  from Inr assms have "delete_loop t st1 ks = (r, st')" by (simp add: st1_def)
  moreover have "tx_handle t \<noteq> 0 \<Longrightarrow>
         tx_writes st1 = (tx_writes st)(k := None) \<and> tx_deletes st1 = insert k (tx_deletes st)"
    by (simp add: st1_def)
  moreover have "tx_handle t = 0 \<Longrightarrow> st1 = st" by (simp add: st1_def)
  ultimately show ?thesis by (rule step)
qed

lemma delete_loop_disjoint:
  "delete_loop t st ks = (r, st') \<Longrightarrow> tx_disjoint st \<Longrightarrow> tx_disjoint st'"
proof (induction ks arbitrary: st)
  case Nil
  then show ?case by simp
next
  case (Cons k ks)
  from Cons.prems(1) show ?case
  proof (cases rule: delete_loop_Cons_cases)
    case (invalid err)
    with Cons.prems(2) show ?thesis by simp
  next
    case (step st1)
    have "tx_disjoint st1"
    proof (cases "tx_handle t = 0")
      case True
      with step(3) Cons.prems(2) show ?thesis by simp
    next
      case False
      from step(2) [OF False] Cons.prems(2) show ?thesis by (auto simp: tx_disjoint_def)
    qed
    with step(1) show ?thesis by (rule Cons.IH)
  qed
qed

lemma delete_loop_mono:
  "delete_loop t st ks = (r, st') \<Longrightarrow>
     tx_deletes st \<subseteq> tx_deletes st' \<and> dom (tx_writes st') \<subseteq> dom (tx_writes st)"
proof (induction ks arbitrary: st)
  case Nil
  then show ?case by simp
next
  case (Cons k ks)
  from Cons.prems(1) show ?case
  proof (cases rule: delete_loop_Cons_cases)
    case (invalid err)
    then show ?thesis by simp
  next
    case (step st1)
    have "tx_deletes st \<subseteq> tx_deletes st1 \<and> dom (tx_writes st1) \<subseteq> dom (tx_writes st)"
    proof (cases "tx_handle t = 0")
      case True
      with step(3) show ?thesis by simp
    next
      case False
      from step(2) [OF False] show ?thesis by auto
    qed
    with Cons.IH [OF step(1)] show ?thesis by blast
  qed
qed

lemma delete_loop_frame:
  "delete_loop t st ks = (r, st') \<Longrightarrow> tx_handle t = 0 \<Longrightarrow> tx_sets st' = tx_sets st"
proof (induction ks arbitrary: st)
  case Nil
  then show ?case by simp
next
  case (Cons k ks)
  from Cons.prems(1) show ?case
  proof (cases rule: delete_loop_Cons_cases)
    case (invalid err)
    then show ?thesis by simp
  next
    case (step st1)
    from step(3) [OF Cons.prems(2)] Cons.IH [OF step(1) Cons.prems(2)] show ?thesis by simp
  qed
qed

lemma delete_loop_recorded:
  "delete_loop t st ks = (Inr u, st') \<Longrightarrow> tx_handle t \<noteq> 0 \<Longrightarrow> k \<in> set ks \<Longrightarrow>
     k \<in> tx_deletes st' \<and> k \<notin> dom (tx_writes st')"
proof (induction ks arbitrary: st)
  case Nil
  then show ?case by simp
next
  case (Cons k0 ks)
  from Cons.prems(1) show ?case
  proof (cases rule: delete_loop_Cons_cases)
    case (invalid err)
    then show ?thesis by simp
  next
    case (step st1)
    show ?thesis
    proof (cases "k \<in> set ks")
      case True
      from Cons.IH [OF step(1) Cons.prems(2) True] show ?thesis .
    next
      case False
      with Cons.prems(3) have "k = k0" by simp
      with step(2) [OF Cons.prems(2)] have "k \<in> tx_deletes st1 \<and> k \<notin> dom (tx_writes st1)"
        by simp
      with delete_loop_mono [OF step(1)] show ?thesis by blast
    qed
  qed
qed

lemma Dynamic_Delete_cases:
  assumes "Dynamic_Delete st req = (r, st')"
  obtains (conn) err where "st' = st" "r = Inl err"
  | (enter) err where
      "enter_tx_delete st (delete_transaction req) (delete_key_list req) = (Inl err, st')"
      "r = Inl err"
  | (loop) st1 err where
      "enter_tx_delete st (delete_transaction req) (delete_key_list req) = (Inr (), st1)"
      "delete_loop (delete_transaction req) st1 (delete_key_list req) = (Inl err, st')"
      "r = Inl err"
  | (tx) st1 where
      "enter_tx_delete st (delete_transaction req) (delete_key_list req) = (Inr (), st1)"
      "delete_loop (delete_transaction req) st1 (delete_key_list req) = (Inr (), st')"
      "tx_handle (delete_transaction req) \<noteq> 0" "r = Inr ()"
  | (direct) st1 st2 where
      "enter_tx_delete st (delete_transaction req) (delete_key_list req) = (Inr (), st1)"
      "delete_loop (delete_transaction req) st1 (delete_key_list req) = (Inr (), st2)"
      "tx_handle (delete_transaction req) = 0"
      "DeleteEntities st2 (delete_key_list req) = (r, st')"
proof (cases "GetConnection st (delete_transaction req)")
  case (Inl err)
  with assms have "st' = st" "r = Inl err" by (simp_all add: Dynamic_Delete_def)
  with conn show ?thesis .
next
  case c: (Inr u)
  obtain r1 st1 where
    e: "enter_tx_delete st (delete_transaction req) (delete_key_list req) = (r1, st1)"
    by (cases "enter_tx_delete st (delete_transaction req) (delete_key_list req)")
  show ?thesis
  proof (cases r1)
    case (Inl err)
    with c e assms have "st' = st1" "r = Inl err" by (simp_all add: Dynamic_Delete_def)
    with e Inl enter show ?thesis by simp
  next
    case r1: (Inr u1)
    obtain r2 st2 where
      l: "delete_loop (delete_transaction req) st1 (delete_key_list req) = (r2, st2)"
      by (cases "delete_loop (delete_transaction req) st1 (delete_key_list req)")
    show ?thesis
    proof (cases r2)
      case (Inl err)
      with c e r1 l assms have "st' = st2" "r = Inl err" by (simp_all add: Dynamic_Delete_def)
      with e r1 l Inl loop show ?thesis by simp
    next
      case r2: (Inr u2)
      show ?thesis
      proof (cases "tx_handle (delete_transaction req) = 0")
        case False
        with c e r1 l r2 assms have "st' = st2" "r = Inr ()"
          by (simp_all add: Dynamic_Delete_def)
        with e r1 l r2 False tx show ?thesis by simp
      next
        case True
        with c e r1 l r2 assms have "DeleteEntities st2 (delete_key_list req) = (r, st')"
          by (simp add: Dynamic_Delete_def)
        with e r1 l r2 True direct show ?thesis by simp
      qed
    qed
  qed
qed

lemma Dynamic_Delete_disjoint:
  assumes "Dynamic_Delete st req = (r, st')" "tx_disjoint st"
  shows "tx_disjoint st'"
  using assms(1)
proof (cases rule: Dynamic_Delete_cases)
  case (conn err)
  with assms(2) show ?thesis by simp
next
  case (enter err)
  from tx_disjoint_enter_tx_delete [OF enter(1)] assms(2) show ?thesis by simp
next
  case (loop st1 err)
  from tx_disjoint_enter_tx_delete [OF loop(1)] assms(2) have "tx_disjoint st1" by simp
  with loop(2) show ?thesis by (rule delete_loop_disjoint)
next
  case (tx st1)
  from tx_disjoint_enter_tx_delete [OF tx(1)] assms(2) have "tx_disjoint st1" by simp
  with tx(2) show ?thesis by (rule delete_loop_disjoint)
next
  case (direct st1 st2)
  from tx_disjoint_enter_tx_delete [OF direct(1)] assms(2) have "tx_disjoint st1" by simp
  with direct(2) have d2: "tx_disjoint st2" by (rule delete_loop_disjoint)
  from direct(4) have "tx_sets st' = tx_sets st2"
    using tx_sets_DeleteEntities [of st2 "delete_key_list req"] by simp
  then have "tx_disjoint st' = tx_disjoint st2" by (rule tx_disjoint_cong)
  with d2 show ?thesis by simp
qed

lemma Dynamic_Delete_recorded:
  assumes "Dynamic_Delete st req = (Inr u, st')" "tx_handle (delete_transaction req) \<noteq> 0"
  shows "\<forall>k \<in> set (delete_key_list req). k \<in> tx_deletes st' \<and> k \<notin> dom (tx_writes st')"
  using assms(1)
proof (cases rule: Dynamic_Delete_cases)
  case (conn err)
  then show ?thesis by simp
next
  case (enter err)
  then show ?thesis by simp
next
  case (loop st1 err)
  then show ?thesis by simp
next
  case (tx st1)
  from delete_loop_recorded [OF tx(2) assms(2)] show ?thesis by blast
next
  case (direct st1 st2)
  with assms(2) show ?thesis by simp
qed

lemma tx_sets_get_loop: "tx_sets (snd (get_loop st ks)) = tx_sets st"
proof (induction ks arbitrary: st)
  case Nil
  show ?case by simp
next
  case (Cons k ks)
  show ?case
  proof (cases "ValidateAppId st (app k)")
    case (Inl err)
    then show ?thesis by simp
  next
    case (Inr u)
    obtain prefix st1 where g: "GetTablePrefix st (app k, name_space k) = (prefix, st1)"
      by (cases "GetTablePrefix st (app k, name_space k)")
    then have 1: "tx_sets st1 = tx_sets st"
      using tx_sets_GetTablePrefix [of st "(app k, name_space k)"] by simp
    obtain r2 st2 where l: "get_loop st1 ks = (r2, st2)" by (cases "get_loop st1 ks")
    then have 2: "tx_sets st2 = tx_sets st1" using Cons.IH [of st1] by simp
    show ?thesis
    proof (cases "encode_path (path k)")
      case (Inl err)
      with Inr g 1 show ?thesis by simp
    next
      case p: (Inr pth)
      have "snd (get_loop st (k # ks)) = st2"
        using Inr g l p by (cases r2) simp_all
      with 1 2 show ?thesis by simp
    qed
  qed
qed

lemma tx_sets_Dynamic_Get: "tx_sets (snd (Dynamic_Get st req)) = tx_sets st"
proof (cases "GetConnection st (get_transaction req)")
  case (Inl err)
  then show ?thesis by (simp add: Dynamic_Get_def)
next
  case (Inr u)
  obtain r1 st1 where e: "enter_tx st (get_transaction req) (get_key_list req) = (r1, st1)"
    by (cases "enter_tx st (get_transaction req) (get_key_list req)")
  then have 1: "tx_sets st1 = tx_sets st"
    using tx_sets_enter_tx [of st "get_transaction req" "get_key_list req"] by simp
  show ?thesis
  proof (cases r1)
    case (Inl err)
    with Inr e 1 show ?thesis by (simp add: Dynamic_Get_def)
  next
    case r1: (Inr u1)
    with Inr e have "snd (Dynamic_Get st req) = snd (get_loop st1 (get_key_list req))"
      by (simp add: Dynamic_Get_def)
    with 1 tx_sets_get_loop [of st1 "get_key_list req"] show ?thesis by simp
  qed
qed

lemma tx_sets_Dynamic_BeginTransaction:
  "tx_sets (snd (Dynamic_BeginTransaction st a)) = tx_sets st"
  by (cases "ValidateAppId st a") (simp_all add: Dynamic_BeginTransaction_def tx_sets_def Let_def)

lemma dispatch_disjoint: "tx_disjoint st \<Longrightarrow> tx_disjoint (dispatch x st request)"
proof (cases request)
  case (Req_Put r)
  assume "tx_disjoint st"
  with Dynamic_Put_disjoint [of x st r "fst (Dynamic_Put x st r)" "snd (Dynamic_Put x st r)"]
  show ?thesis using Req_Put by simp
next
  case (Req_Get r)
  assume d: "tx_disjoint st"
  have "tx_disjoint (snd (Dynamic_Get st r)) = tx_disjoint st"
    by (rule tx_disjoint_cong) (rule tx_sets_Dynamic_Get)
  with d Req_Get show ?thesis by simp
next
  case (Req_Delete r)
  assume "tx_disjoint st"
  with Dynamic_Delete_disjoint [of st r "fst (Dynamic_Delete st r)" "snd (Dynamic_Delete st r)"]
  show ?thesis using Req_Delete by simp
next
  case (Req_Begin a)
  assume d: "tx_disjoint st"
  have "tx_disjoint (snd (Dynamic_BeginTransaction st a)) = tx_disjoint st"
    by (rule tx_disjoint_cong) (rule tx_sets_Dynamic_BeginTransaction)
  with d Req_Begin show ?thesis by simp
qed

lemma serve_disjoint: "tx_disjoint st \<Longrightarrow> tx_disjoint (serve x st requests)"
  unfolding serve_def
  by (induction requests arbitrary: st) (simp_all add: dispatch_disjoint)

lemma new_stub_disjoint: "tx_disjoint (DatastoreMySQLStub a t)"
  by (simp add: tx_disjoint_def DatastoreMySQLStub_def)

lemma tx_stub_eq:
  "tx_stub = (DatastoreMySQLStub ''app'' False)
     \<lparr>next_tx_handle := 2, current_transaction := Some 1,
      transactions := [example_transaction \<mapsto> None]\<rparr>"
  by (simp add: tx_stub_def Dynamic_BeginTransaction_def ValidateAppId_def DatastoreMySQLStub_def
      example_transaction_def Let_def)

lemma example_put_result:
  "Dynamic_Put example_ext tx_stub example_put =
     (Inr [example_key [] ''Book'' 1],
      tx_stub\<lparr>inside_tx := True,
               transactions := [example_transaction \<mapsto> Some ''Book''],
               tx_writes := [example_key [] ''Book'' 1 \<mapsto> example_entity ''Book'' 1],
               tx_deletes := {}\<rparr>)"
  by (simp add: Dynamic_Put_def GetConnection_def tx_handle_def enter_tx_def
      ExtractEntityGroupFromKeys_def put_entity_def complete_entity_def ValidateKey_def
      ValidateAppId_def entity_group_size_def has_id_def has_name_def id_of_def
      tx_stub_eq DatastoreMySQLStub_def example_put_def example_entity_def example_key_def
      example_transaction_def Let_def)


lemma example_delete_result:
  "Dynamic_Delete
     (tx_stub\<lparr>inside_tx := True,
               transactions := [example_transaction \<mapsto> Some ''Book''],
               tx_writes := [example_key [] ''Book'' 1 \<mapsto> example_entity ''Book'' 1],
               tx_deletes := {}\<rparr>)
     example_delete =
     (Inr (),
      tx_stub\<lparr>inside_tx := True,
               transactions := [example_transaction \<mapsto> Some ''Book''],
               tx_writes := Map.empty,
               tx_deletes := {example_key [] ''Book'' 1}\<rparr>)"
  by (simp add: Dynamic_Delete_def GetConnection_def tx_handle_def enter_tx_delete_def
      ValidateAppId_def tx_stub_eq DatastoreMySQLStub_def example_delete_def example_key_def
      example_transaction_def Let_def)

text \<open>
  The requests that return. Within a transaction (the request's handle is not 0),
  after a Put that returns, every key it returns is in the write-set and not in the
  delete-set, and the keys of the request that were complete are among the returned
  keys; after a Delete that returns, every key of the request is in the delete-set and
  not in the write-set. The write-set and the delete-set of a new stub are disjoint,
  and they stay disjoint after every sequence of BeginTransaction, Put, Get and Delete
  requests, whether the requests return or raise.
\<close>

lemma buffering_of_returning_requests:
  "(tx_handle (put_transaction p) \<noteq> 0 \<and> Dynamic_Put x st p = (Inr ks, st') \<longrightarrow>
      (\<forall>k \<in> set ks. k \<in> dom (tx_writes st') \<and> k \<notin> tx_deletes st') \<and>
      (\<forall>e \<in> set (entity_list p). complete_key (key e) \<longrightarrow> key e \<in> set ks)) \<and>
   (tx_handle (delete_transaction d) \<noteq> 0 \<and> Dynamic_Delete sd d = (Inr (), sd') \<longrightarrow>
      (\<forall>k \<in> set (delete_key_list d). k \<in> tx_deletes sd' \<and> k \<notin> dom (tx_writes sd'))) \<and>
   tx_disjoint (serve x (DatastoreMySQLStub a t) requests)"
proof (intro conjI impI)
  assume "tx_handle (put_transaction p) \<noteq> 0 \<and> Dynamic_Put x st p = (Inr ks, st')"
  then have *: "(\<forall>k \<in> set ks. k \<in> dom (tx_writes st') \<and> k \<notin> tx_deletes st') \<and>
      (\<forall>e \<in> set (entity_list p). complete_key (key e) \<longrightarrow> key e \<in> set ks)"
    using Dynamic_Put_recorded by blast
  from * show "\<forall>k \<in> set ks. k \<in> dom (tx_writes st') \<and> k \<notin> tx_deletes st'" ..
  from * show "\<forall>e \<in> set (entity_list p). complete_key (key e) \<longrightarrow> key e \<in> set ks" ..
next
  assume "tx_handle (delete_transaction d) \<noteq> 0 \<and> Dynamic_Delete sd d = (Inr (), sd')"
  then show "\<forall>k \<in> set (delete_key_list d). k \<in> tx_deletes sd' \<and> k \<notin> dom (tx_writes sd')"
    using Dynamic_Delete_recorded by blast
next
  show "tx_disjoint (serve x (DatastoreMySQLStub a t) requests)"
    by (rule serve_disjoint) (rule new_stub_disjoint)
qed

lemma buffering_of_returning_requests_example:
  "fst (Dynamic_Put example_ext tx_stub example_put) = Inr [example_key [] ''Book'' 1] \<and>
   example_key [] ''Book'' 1 \<in> dom (tx_writes (snd (Dynamic_Put example_ext tx_stub example_put))) \<and>
   example_key [] ''Book'' 1 \<notin> tx_deletes (snd (Dynamic_Put example_ext tx_stub example_put)) \<and>
   fst (Dynamic_Delete (snd (Dynamic_Put example_ext tx_stub example_put)) example_delete) = Inr () \<and>
   example_key [] ''Book'' 1 \<in>
     tx_deletes (snd (Dynamic_Delete (snd (Dynamic_Put example_ext tx_stub example_put)) example_delete)) \<and>
   example_key [] ''Book'' 1 \<notin>
     dom (tx_writes (snd (Dynamic_Delete (snd (Dynamic_Put example_ext tx_stub example_put)) example_delete))) \<and>
   tx_disjoint (serve example_ext (DatastoreMySQLStub ''app'' False)
     [Req_Begin ''app'', Req_Put example_put, Req_Delete example_delete])"
proof -
  let ?k = "example_key [] ''Book'' 1"
  define sp where "sp = tx_stub\<lparr>inside_tx := True,
               transactions := [example_transaction \<mapsto> Some ''Book''],
               tx_writes := [example_key [] ''Book'' 1 \<mapsto> example_entity ''Book'' 1],
               tx_deletes := {}\<rparr>"
  define sd where "sd = tx_stub\<lparr>inside_tx := True,
               transactions := [example_transaction \<mapsto> Some ''Book''],
               tx_writes := Map.empty,
               tx_deletes := {example_key [] ''Book'' 1}\<rparr>"
  have p: "Dynamic_Put example_ext tx_stub example_put = (Inr [?k], sp)"
    unfolding sp_def by (rule example_put_result)
  have d: "Dynamic_Delete sp example_delete = (Inr (), sd)"
    unfolding sp_def sd_def by (rule example_delete_result)
  have hp: "tx_handle (put_transaction example_put) \<noteq> 0"
    by (simp add: tx_handle_def example_put_def example_transaction_def)
  have hd: "tx_handle (delete_transaction example_delete) \<noteq> 0"
    by (simp add: tx_handle_def example_delete_def example_transaction_def)
  have c: "complete_key (key (example_entity ''Book'' 1))"
    by (simp add: complete_key_def example_entity_def example_key_def id_of_def)
  have kd: "delete_key_list example_delete = [?k]" by (simp add: example_delete_def)
  from buffering_of_returning_requests [of example_put example_ext tx_stub "[?k]" sp
      example_delete sp sd "''app''" False
      "[Req_Begin ''app'', Req_Put example_put, Req_Delete example_delete]"]
    p d hp hd c kd
  show ?thesis by simp
qed

text \<open>
  A Delete that opens its transaction, for every stub, transaction and key list: the
  connection check passes, the transaction is known and has had no operation yet, and
  the keys name one entity group. The request raises \<^verbatim>\<open>NameError\<close> at the statement that
  records the entity group, before the loop over the keys; the stub it leaves has
  \<^verbatim>\<open>__inside_tx\<close> set and nothing else changed.
\<close>

lemma opening_delete_raises:
  assumes "GetConnection st (Some t) = Inr ()" and "t \<in> dom (transactions st)"
    and "\<not> inside_tx st" and "ExtractEntityGroupFromKeys ks = Inr g"
  shows "Dynamic_Delete st \<lparr>delete_transaction = Some t, delete_key_list = ks\<rparr> =
     (Inl (NameError ''global name 'request' is not defined''), st\<lparr>inside_tx := True\<rparr>)"
proof -
  have "enter_tx_delete st (Some t) ks =
     (Inl (NameError ''global name 'request' is not defined''), st\<lparr>inside_tx := True\<rparr>)"
    using assms(2-4) by (simp add: enter_tx_delete_def)
  with assms(1) show ?thesis by (simp add: Dynamic_Delete_def)
qed

lemma begin_example:
  "Dynamic_BeginTransaction (DatastoreMySQLStub ''app'' False) ''app'' =
     (Inr example_transaction, tx_stub)"
  by (simp add: tx_stub_eq Dynamic_BeginTransaction_def ValidateAppId_def DatastoreMySQLStub_def
      example_transaction_def Let_def)

text \<open>
  Claim C7. Within an active transaction, after a Put of a key the key is in the
  write-set and not in the delete-set, and after a Delete of a key the key is in the
  delete-set and not in the write-set. The second half fails for the Delete that is
  the first operation of its transaction: BeginTransaction on a new stub of the
  application \<open>app\<close> returns the transaction with handle 1; the Delete of the key
  \<open>Book 1\<close> under that transaction raises \<^verbatim>\<open>NameError\<close>, and the key is not in the
  delete-set of the stub the request leaves.
\<close>

theorem transactional_delete_loses_its_key:
  "Dynamic_BeginTransaction (DatastoreMySQLStub ''app'' False) ''app'' =
     (Inr example_transaction, tx_stub) \<and>
   fst (Dynamic_Delete tx_stub example_delete) =
     Inl (NameError ''global name 'request' is not defined'') \<and>
   example_key [] ''Book'' 1 \<notin> tx_deletes (snd (Dynamic_Delete tx_stub example_delete)) \<and>
   example_key [] ''Book'' 1 \<notin>
     tx_deletes (serve example_ext (DatastoreMySQLStub ''app'' False)
                   [Req_Begin ''app'', Req_Delete example_delete])"
proof -
  have conn: "GetConnection tx_stub (Some example_transaction) = Inr ()"
    by (simp add: GetConnection_def tx_handle_def tx_stub_eq example_transaction_def)
  have known: "example_transaction \<in> dom (transactions tx_stub)"
    by (simp add: tx_stub_eq)
  have first: "\<not> inside_tx tx_stub"
    by (simp add: tx_stub_eq DatastoreMySQLStub_def)
  have grp: "ExtractEntityGroupFromKeys [example_key [] ''Book'' 1] = Inr ''Book''"
    by (simp add: ExtractEntityGroupFromKeys_def example_key_def)
  have d: "Dynamic_Delete tx_stub example_delete =
     (Inl (NameError ''global name 'request' is not defined''), tx_stub\<lparr>inside_tx := True\<rparr>)"
    unfolding example_delete_def by (rule opening_delete_raises [OF conn known first grp])
  have none: "tx_deletes tx_stub = {}"
    by (simp add: tx_stub_eq DatastoreMySQLStub_def)
  have s: "serve example_ext (DatastoreMySQLStub ''app'' False)
             [Req_Begin ''app'', Req_Delete example_delete] = tx_stub\<lparr>inside_tx := True\<rparr>"
    by (simp add: serve_def begin_example d)
  show ?thesis
    by (simp add: begin_example d s none)
qed

subsection \<open>Delete without a transaction\<close>


subsection \<open>Put followed by Get\<close>







lemma kept_insert_index_groups [simp]: "kept (snd (insert_index_groups x st gs)) = kept st"
proof (induction gs arbitrary: st)
  case Nil
  show ?case by simp
next
  case (Cons g gs)
  obtain prefix grp where g: "g = (prefix, grp)" by (cases g)
  show ?case
  proof (cases "collect (\<lambda>(unused_prefix, e). property_rows_of x e) grp")
    case (Inl err)
    with g show ?thesis by simp
  next
    case (Inr rowss)
    let ?st1 = "st\<lparr>EntitiesByProperty := (EntitiesByProperty st)(prefix :=
                   foldl insert_ignore (EntitiesByProperty st prefix) (concat rowss))\<rparr>"
    have "kept ?st1 = kept st" by (simp add: kept_def)
    with Inr g Cons.IH [of ?st1] show ?thesis by simp
  qed
qed


lemma encode_path_loop_total:
  "\<forall>el \<in> set p. has_id el \<or> has_name el \<Longrightarrow> \<exists>parts. encode_path_loop ident p = Inr parts"
proof (induction p arbitrary: ident)
  case Nil
  show ?case by simp
next
  case (Cons e es)
  let ?ident = "if has_name e then Some (name_of e)
                else if has_id e then Some (zfill 10 (str (id_of e))) else ident"
  from Cons.prems have "has_id e \<or> has_name e" by simp
  then have "\<exists>i. ?ident = Some i" by (cases "has_name e") simp_all
  then obtain i where i: "?ident = Some i" ..
  from Cons.prems have "\<forall>el \<in> set es. has_id el \<or> has_name el" by simp
  from Cons.IH [OF this, of "Some i"] obtain parts where "encode_path_loop (Some i) es = Inr parts" ..
  with i have "encode_path_loop ident (e # es) = Inr ((elem_type e @ '':'' @ i) # parts)"
    by (simp add: Let_def)
  then show ?case ..
qed

lemma encode_path_total:
  "\<forall>el \<in> set p. has_id el \<or> has_name el \<Longrightarrow> \<exists>s. encode_path p = Inr s"
  using encode_path_loop_total [of p None] by (auto simp: encode_path_def)









lemma ValidateAppId_kept: "kept st' = kept st \<Longrightarrow> ValidateAppId st' a = ValidateAppId st a"
  by (simp add: kept_def ValidateAppId_def)









subsection \<open>The encoding of paths\<close>








lemma length_pad [simp]: "length (pad k n) = k"
  by (induction k arbitrary: n) simp_all






















text \<open>
  An element with neither a name nor an id at the head of a path: the variable \<^verbatim>\<open>id\<close>
  is read before it is assigned.
\<close>

lemma encode_path_unbound_id:
  "EncodeIndexPB x (PB_Path [\<lparr>elem_type = k, elem_id = None, elem_name = None\<rparr>]) =
     Inl UnboundLocalError"
  by (simp add: encode_path_def has_id_def has_name_def)




end
